theory Spec2Isabelle
  imports Main "HOL-Library.Sublist"
begin

section \<open>Python string primitives used by the backend\<close>

text \<open>
  A Python \<open>str\<close> is modelled as a \<open>string\<close> whose characters stand for the code points
  below 256, one \<open>char\<close> per code point, so that \<open>length\<close> is Python's \<open>len\<close>.
  The functions below are \<open>str.isspace\<close>, \<open>str.strip()\<close>, \<open>str.lower()\<close>,
  \<open>sub in s\<close>, \<open>str.split(sep)\<close> and \<open>sep.join(xs)\<close> on that range.
\<close>

definition isspace :: "char \<Rightarrow> bool" where
  "isspace c =
     (let n = (of_char c :: nat)
      in (9 \<le> n \<and> n \<le> 13) \<or> (28 \<le> n \<and> n \<le> 32) \<or> n = 133 \<or> n = 160)"

definition strip :: "string \<Rightarrow> string" where
  "strip s = rev (dropWhile isspace (rev (dropWhile isspace s)))"

definition lower_char :: "char \<Rightarrow> char" where
  "lower_char c =
     (let n = (of_char c :: nat)
      in if (65 \<le> n \<and> n \<le> 90) \<or> (192 \<le> n \<and> n \<le> 222 \<and> n \<noteq> 215)
         then char_of (n + 32) else c)"

definition lower :: "string \<Rightarrow> string" where
  "lower s = map lower_char s"

fun contains :: "string \<Rightarrow> string \<Rightarrow> bool" where
  "contains sub [] = (sub = [])"
| "contains sub (c # cs) = (prefix sub (c # cs) \<or> contains sub cs)"

text \<open>
  \<open>split_from sep cur s\<close> scans \<open>s\<close> from the left, \<open>cur\<close> being the piece read so far;
  \<open>py_split sep s\<close> is \<open>s.split(sep)\<close> for a non-empty separator (Python raises
  ValueError on an empty one; the backend only splits on the arrow and on the newline).
\<close>

function split_from :: "string \<Rightarrow> string \<Rightarrow> string \<Rightarrow> string list" where
  "split_from sep cur s =
     (if s = [] then [cur]
      else if sep \<noteq> [] \<and> prefix sep s then cur # split_from sep [] (drop (length sep) s)
      else split_from sep (cur @ [hd s]) (tl s))"
  by pat_completeness auto
termination
  by (relation "measure (\<lambda>(sep, cur, s). length s)") auto

declare split_from.simps [simp del]

definition py_split :: "string \<Rightarrow> string \<Rightarrow> string list" where
  "py_split sep s = split_from sep [] s"

fun join :: "string \<Rightarrow> string list \<Rightarrow> string" where
  "join sep [] = []"
| "join sep [x] = x"
| "join sep (x # y # ys) = x @ sep @ join sep (y # ys)"

definition arrow :: string where
  "arrow = ''-->''"

definition newline :: string where
  "newline = ''\<newline>''"

datatype exn = IndexError | ValueError string | External string

text \<open>\<open>str(e)\<close>: the message an exception carries.\<close>

fun str_of_exn :: "exn \<Rightarrow> string" where
  "str_of_exn IndexError = ''list index out of range''"
| "str_of_exn (ValueError m) = m"
| "str_of_exn (External m) = m"

section \<open>ingest.py: the transcript parser\<close>

text \<open>A segment is the dict \<open>{"timestamp": ..., "text": ...}\<close> of \<open>parse_webvtt_content\<close>.\<close>

record segment =
  seg_timestamp :: string
  seg_text :: string

text \<open>
  The inner \<open>while\<close> of \<open>parse_webvtt_content\<close>: from line \<open>i\<close> on, collect stripped
  lines until a blank line, a line with the arrow, or the end. It returns the index
  where it stopped and the collected lines.
\<close>

function collect_text :: "string list \<Rightarrow> nat \<Rightarrow> string list \<Rightarrow> nat \<times> string list" where
  "collect_text lines i text_lines =
     (if i < length lines then
        (let text_line = strip (lines ! i)
         in if text_line = [] \<or> contains arrow text_line then (i, text_lines)
            else collect_text lines (i + 1) (text_lines @ [text_line]))
      else (i, text_lines))"
  by pat_completeness auto
termination
  by (relation "measure (\<lambda>(lines, i, text_lines). length lines - i)") auto

declare collect_text.simps [simp del]

text \<open>The outer \<open>while i < len(lines)\<close> of \<open>parse_webvtt_content\<close>.\<close>

function parse_loop :: "string list \<Rightarrow> nat \<Rightarrow> segment list \<Rightarrow> segment list" where
  "parse_loop lines i segments =
     (if i < length lines then
        (let line = strip (lines ! i)
         in if contains arrow line then
              (let r = collect_text lines (i + 1) []
               in parse_loop lines (fst r)
                    (if snd r \<noteq> []
                     then segments @ [\<lparr>seg_timestamp = line, seg_text = join '' '' (snd r)\<rparr>]
                     else segments))
            else parse_loop lines (i + 1) segments)
      else segments)"
  by pat_completeness auto
termination
proof -
  have idx: "i \<le> fst (collect_text lines i text_lines)"
    for lines :: "string list" and i :: nat and text_lines :: "string list"
  proof (induction lines i text_lines rule: collect_text.induct)
    case (1 lines i text_lines)
    show ?case
    proof (cases "i < length lines \<and>
        \<not> (strip (lines ! i) = [] \<or> contains arrow (strip (lines ! i)))")
      case True
      with 1 [of "strip (lines ! i)"]
      have "i + 1 \<le> fst (collect_text lines (i + 1) (text_lines @ [strip (lines ! i)]))"
        by simp
      with True show ?thesis
        by (subst collect_text.simps) (simp add: Let_def)
    next
      case False
      then show ?thesis
        by (subst collect_text.simps) (auto simp add: Let_def)
    qed
  qed
  show ?thesis
  proof (relation "measure (\<lambda>(lines, i, segments). length lines - i)")
    show "wf (measure (\<lambda>(lines, i, segments). length lines - i))"
      by simp
  next
    fix lines :: "string list" and i :: nat and segments :: "segment list"
      and x :: string and xa :: "nat \<times> string list"
    assume a: "i < length lines" and r: "xa = collect_text lines (i + 1) []"
    have "i + 1 \<le> fst xa"
      unfolding r by (rule idx)
    with a show "((lines, fst xa, if snd xa \<noteq> []
                     then segments @ [\<lparr>seg_timestamp = x, seg_text = join '' '' (snd xa)\<rparr>]
                     else segments), lines, i, segments)
                 \<in> measure (\<lambda>(lines, i, segments). length lines - i)"
      by simp
  next
    fix lines :: "string list" and i :: nat and segments :: "segment list" and x :: string
    assume "i < length lines"
    then show "((lines, i + 1, segments), lines, i, segments)
                 \<in> measure (\<lambda>(lines, i, segments). length lines - i)"
      by simp
  qed
qed

declare parse_loop.simps [simp del]

definition parse_webvtt_content :: "string \<Rightarrow> segment list" where
  "parse_webvtt_content content = parse_loop (py_split newline content) 0 []"

section \<open>ingest.py: the chunk assembler\<close>

text \<open>
  A chunk is the dict \<open>{"text", "timestamp_start", "timestamp_end"}\<close> (its text is
  the field \<open>chunk_text\<close>); the two timestamps hold the value of a variable that starts
  as \<open>None\<close>.
\<close>

record chunk =
  chunk_text :: string
  timestamp_start :: "string option"
  timestamp_end :: "string option"

text \<open>
  The local variables of \<open>create_chunks_from_segments\<close> (\<open>current_chunk\<close> is only ever
  assigned the empty list and never read, so it is left out).
\<close>

record assembler =
  chunks :: "chunk list"
  current_text :: string
  start_timestamp :: "string option"
  end_timestamp :: "string option"

text \<open>\<open>segment['timestamp'].split('-->')[0].strip()\<close>; a split always has a first piece.\<close>

definition seg_start :: "segment \<Rightarrow> string" where
  "seg_start seg = strip (hd (py_split arrow (seg_timestamp seg)))"

text \<open>\<open>segment['timestamp'].split('-->')[1].strip()\<close>, an IndexError without an arrow.\<close>

definition seg_end :: "segment \<Rightarrow> exn + string" where
  "seg_end seg =
     (let parts = py_split arrow (seg_timestamp seg)
      in if 1 < length parts then Inr (strip (parts ! 1)) else Inl IndexError)"

text \<open>Python's truth value of \<open>start_timestamp\<close>: \<open>None\<close> and the empty string are false.\<close>

fun truthy :: "string option \<Rightarrow> bool" where
  "truthy None = False"
| "truthy (Some s) = (s \<noteq> [])"

text \<open>The \<open>if\<close> at the head of the loop body: close the current chunk and reset.\<close>

definition flush :: "int \<Rightarrow> assembler \<Rightarrow> segment \<Rightarrow> assembler" where
  "flush chunk_size st seg =
     (if current_text st \<noteq> []
         \<and> int (length (current_text st)) + int (length (seg_text seg)) > chunk_size
      then st\<lparr>chunks := chunks st @
                  [\<lparr>chunk_text = current_text st,
                    timestamp_start = start_timestamp st,
                    timestamp_end = end_timestamp st\<rparr>],
              current_text := [],
              start_timestamp := None\<rparr>
      else st)"

text \<open>The rest of the loop body: fold the segment into the accumulator.\<close>

definition add_segment :: "assembler \<Rightarrow> segment \<Rightarrow> exn + assembler" where
  "add_segment st seg =
     (let start = (if \<not> truthy (start_timestamp st) then Some (seg_start seg)
                   else start_timestamp st)
      in case seg_end seg of
           Inl e \<Rightarrow> Inl e
         | Inr e \<Rightarrow>
             Inr (st\<lparr>start_timestamp := start,
                     end_timestamp := Some e,
                     current_text := (if current_text st \<noteq> []
                                      then current_text st @ '' '' @ seg_text seg
                                      else seg_text seg)\<rparr>))"

definition fold_segment :: "int \<Rightarrow> assembler \<Rightarrow> segment \<Rightarrow> exn + assembler" where
  "fold_segment chunk_size st seg = add_segment (flush chunk_size st seg) seg"

text \<open>\<open>for segment in segments\<close>: an exception ends the loop and the call.\<close>

fun run_segments :: "int \<Rightarrow> assembler \<Rightarrow> segment list \<Rightarrow> exn + assembler" where
  "run_segments chunk_size st [] = Inr st"
| "run_segments chunk_size st (seg # segments) =
     (case fold_segment chunk_size st seg of
        Inl e \<Rightarrow> Inl e
      | Inr st' \<Rightarrow> run_segments chunk_size st' segments)"

definition init_assembler :: assembler where
  "init_assembler =
     \<lparr>chunks = [], current_text = [], start_timestamp = None, end_timestamp = None\<rparr>"

text \<open>The final \<open>if current_text\<close> after the loop.\<close>

definition final_chunks :: "assembler \<Rightarrow> chunk list" where
  "final_chunks st =
     (if current_text st \<noteq> []
      then chunks st @ [\<lparr>chunk_text = current_text st,
                         timestamp_start = start_timestamp st,
                         timestamp_end = end_timestamp st\<rparr>]
      else chunks st)"

definition create_chunks_from_segments :: "segment list \<Rightarrow> int \<Rightarrow> exn + chunk list" where
  "create_chunks_from_segments segments chunk_size =
     (case run_segments chunk_size init_assembler segments of
        Inl e \<Rightarrow> Inl e
      | Inr st \<Rightarrow> Inr (final_chunks st))"

definition CHUNK_SIZE :: int where
  "CHUNK_SIZE = 1000"

section \<open>main.py: classifying the question\<close>

text \<open>
  Each of the six \<open>casual_patterns\<close> is a regular expression \<open>^(a|b|...)\<close> of literal
  alternatives; it is kept as the list of its alternatives, in the order of the source.
  \<open>re.match\<close> of such a pattern succeeds exactly when one alternative is a prefix of the
  string.
\<close>

definition casual_patterns :: "string list list" where
  "casual_patterns =
     [[''hi'', ''hello'', ''hey'', ''good morning'', ''good afternoon'', ''good evening'',
       ''greetings''],
      [''how are you'', ''how's it going'', ''what's up'', ''wassup'', ''sup''],
      [''who are you'', ''what are you'', ''tell me about yourself''],
      [''thank you'', ''thanks'', ''thank'', ''ty''],
      [''bye'', ''goodbye'', ''see you'', ''later''],
      [''ok'', ''okay'', ''alright'', ''cool'', ''nice'']]"

definition re_match :: "string list \<Rightarrow> string \<Rightarrow> bool" where
  "re_match pattern s = list_ex (\<lambda>alternative. prefix alternative s) pattern"

text \<open>\<open>any(re.match(pattern, question_lower) for pattern in casual_patterns)\<close>.\<close>

definition is_casual :: "string \<Rightarrow> bool" where
  "is_casual question_lower = list_ex (\<lambda>pattern. re_match pattern question_lower) casual_patterns"

text \<open>The keys of \<open>casual_responses\<close> and the \<open>if\<close>/\<open>elif\<close> chain that picks one.\<close>

datatype category = Greeting | How_are_you | Who_are_you | Thanks | Bye | Ok

definition casual_responses :: "category \<Rightarrow> string" where
  "casual_responses k =
     (case k of
        Greeting \<Rightarrow> ''Hello! I'm your AI Tutor, here to help you learn from Andrew Ng's lectures. Feel free to ask me anything about Generative AI, RAG, Fine-tuning, or any topic from the courses!''
      | How_are_you \<Rightarrow> ''I'm doing great, thank you for asking! I'm ready to help you understand any concepts from the lectures. What would you like to learn about today?''
      | Who_are_you \<Rightarrow> ''I'm an AI-powered tutor based on Andrew Ng's teaching style. I can help you understand concepts from the Generative AI courses by answering your questions using the lecture transcripts. How can I assist you?''
      | Thanks \<Rightarrow> ''You're very welcome! If you have more questions, I'm always here to help. Keep learning!''
      | Bye \<Rightarrow> ''Goodbye! Feel free to come back anytime you have questions. Happy learning!''
      | Ok \<Rightarrow> ''Great! If you have any questions about the course material, just ask away!'')"

definition response_key :: "string \<Rightarrow> category" where
  "response_key question_lower =
     (if re_match (casual_patterns ! 0) question_lower then Greeting
      else if re_match (casual_patterns ! 1) question_lower then How_are_you
      else if re_match (casual_patterns ! 2) question_lower then Who_are_you
      else if re_match (casual_patterns ! 3) question_lower then Thanks
      else if re_match (casual_patterns ! 4) question_lower then Bye
      else Ok)"

text \<open>
  The classifier of the endpoint: \<open>request.question.lower().strip()\<close>, the test
  \<open>is_casual\<close>, and on the casual side the key of the canned response. \<open>None\<close> is the
  retrieval branch.
\<close>

definition classify :: "string \<Rightarrow> category option" where
  "classify question =
     (let question_lower = strip (lower question)
      in if is_casual question_lower then Some (response_key question_lower) else None)"

section \<open>main.py: the event stream\<close>

text \<open>
  A source is the dict appended to \<open>sources\<close> (keys \<open>course\<close>, \<open>lecture\<close>,
  \<open>timestamp_start\<close>, \<open>timestamp_end\<close>, \<open>text\<close>). An event stands for the line
  \<open>data: <json>\<close> followed by a blank line that the generators yield, the JSON object
  having the type \<open>content\<close>, \<open>sources\<close> or \<open>done\<close>.
\<close>

record source =
  course :: string
  lecture :: string
  source_timestamp_start :: string
  source_timestamp_end :: string
  source_text :: string

datatype event = Content string | Sources "source list" | Done

text \<open>\<open>generate_casual\<close>: one content event per character, then \<open>done\<close>.\<close>

definition generate_casual :: "string \<Rightarrow> event list" where
  "generate_casual question_lower =
     map (\<lambda>char. Content [char]) (casual_responses (response_key question_lower)) @ [Done]"

section \<open>main.py: retrieval, sources and the generated answer\<close>

text \<open>
  What \<open>collection.query\<close> returns for the one query text: the lists
  \<open>results['ids'][0]\<close>, \<open>results['documents'][0]\<close> and \<open>results['metadatas'][0]\<close>,
  a metadata being a dict.
\<close>

record query_result =
  ids :: "string list"
  documents :: "string list"
  metadatas :: "(string \<rightharpoonup> string) list"

text \<open>\<open>metadata.get(key, default)\<close>.\<close>

definition metadata_get :: "(string \<rightharpoonup> string) \<Rightarrow> string \<Rightarrow> string \<Rightarrow> string" where
  "metadata_get metadata key dflt = (case metadata key of None \<Rightarrow> dflt | Some v \<Rightarrow> v)"

text \<open>\<open>documents[i][:200] + "..." if len(documents[i]) > 200 else documents[i]\<close>.\<close>

definition excerpt :: "string \<Rightarrow> string" where
  "excerpt document = (if length document > 200 then take 200 document @ ''...'' else document)"

text \<open>
  The context block: the comprehension reads \<open>ids[i]\<close> for every document, an IndexError
  when there are more documents than ids.
\<close>

definition context_str :: "query_result \<Rightarrow> exn + string" where
  "context_str results =
     (if length (documents results) \<le> length (ids results)
      then Inr (join ''\<newline>\<newline>''
             (map (\<lambda>(i, doc). ''[ID: '' @ ids results ! i @ ''] '' @ doc)
                (enumerate 0 (documents results))))
      else Inl IndexError)"

text \<open>
  \<open>for i in range(len(ids))\<close>: \<open>metadatas[i]\<close> and \<open>documents[i]\<close> raise IndexError when
  the list is too short.
\<close>

fun sources_loop :: "query_result \<Rightarrow> nat list \<Rightarrow> source list \<Rightarrow> exn + source list" where
  "sources_loop results [] sources = Inr sources"
| "sources_loop results (i # rest) sources =
     (if i < length (metadatas results) \<and> i < length (documents results)
      then sources_loop results rest
             (sources @
              [\<lparr>course = metadata_get (metadatas results ! i) ''course'' ''Unknown'',
                lecture = metadata_get (metadatas results ! i) ''lecture'' ''Unknown'',
                source_timestamp_start =
                  metadata_get (metadatas results ! i) ''timestamp_start'' ''00:00:00.000'',
                source_timestamp_end =
                  metadata_get (metadatas results ! i) ''timestamp_end'' ''00:00:00.000'',
                source_text = excerpt (documents results ! i)\<rparr>])
      else Inl IndexError)"

definition build_sources :: "query_result \<Rightarrow> exn + source list" where
  "build_sources results = sources_loop results [0..<length (ids results)] []"

text \<open>
  The collaborators of the endpoint. \<open>collection_query q n\<close> is
  \<open>collection.query(query_texts=[q], n_results=n)\<close>, which returns or raises.
  \<open>chat_completions messages\<close> is the streamed completion for the messages (each a role
  and a content): the call raises, or it returns a stream that yields the
  \<open>delta.content\<close> values listed (\<open>None\<close> for an absent one) and then either ends or
  raises the exception given. The model name and temperature are fixed arguments and are
  not represented. \<open>SYSTEM_PROMPT\<close> is the constant text of the system message.
\<close>

record env =
  SYSTEM_PROMPT :: string
  collection_query :: "string \<Rightarrow> nat \<Rightarrow> exn + query_result"
  chat_completions :: "(string \<times> string) list \<Rightarrow> exn + (string option list \<times> exn option)"

definition closing_message :: string where
  "closing_message = ''\<newline>\<newline>---\<newline>\<newline>*You can follow my lectures where I have discussed these topics in more detail. Here are the references:*\<newline>\<newline>''"

definition messages :: "env \<Rightarrow> string \<Rightarrow> string \<Rightarrow> (string \<times> string) list" where
  "messages e question context =
     [(''system'', SYSTEM_PROMPT e),
      (''user'', ''Context:\<newline>'' @ context @ ''\<newline>\<newline>Question: '' @ question)]"

text \<open>
  \<open>for chunk in stream\<close>: a content event for every delta whose content is neither \<open>None\<close>
  nor empty (\<open>full_answer\<close> is accumulated but never read, and is left out).
\<close>

fun stream_events :: "string option list \<Rightarrow> event list" where
  "stream_events [] = []"
| "stream_events (None # deltas) = stream_events deltas"
| "stream_events (Some content # deltas) =
     (if content \<noteq> [] then Content content # stream_events deltas else stream_events deltas)"

text \<open>
  The generator \<open>generate\<close>: the events it yields, and the exception that ends it if one
  is raised by the completion call or by the stream. Nothing in \<open>generate\<close> catches it.
\<close>

definition generate :: "env \<Rightarrow> string \<Rightarrow> string \<Rightarrow> source list \<Rightarrow> event list \<times> exn option" where
  "generate e question context sources =
     (case chat_completions e (messages e question context) of
        Inl err \<Rightarrow> ([], Some err)
      | Inr (deltas, failure) \<Rightarrow>
          (case failure of
             Some err \<Rightarrow> (stream_events deltas, Some err)
           | None \<Rightarrow>
               (stream_events deltas @ [Content closing_message, Sources sources, Done], None)))"

text \<open>
  The answer of the endpoint: \<open>HTTPException status detail\<close> raised by the \<open>except\<close>
  clause, or a \<open>StreamingResponse\<close> with the events its generator delivers and the
  exception that cut the stream short, if any. The generator runs after \<open>query_lecture\<close>
  has returned, outside its \<open>try\<close>. \<open>calls\<close> lists the calls made to the vector store
  and to the model, in order.
\<close>

datatype response = HTTPException nat string | StreamingResponse "event list" "exn option"

datatype call = Store_query string nat | Model_call "(string \<times> string) list"

record outcome =
  response :: response
  calls :: "call list"

definition query_lecture :: "env \<Rightarrow> string \<Rightarrow> outcome" where
  "query_lecture e question =
     (let question_lower = strip (lower question)
      in if is_casual question_lower
         then \<lparr>response = StreamingResponse (generate_casual question_lower) None, calls = []\<rparr>
         else
           (case collection_query e question 5 of
              Inl err \<Rightarrow>
                \<lparr>response = HTTPException 500 (str_of_exn err), calls = [Store_query question 5]\<rparr>
            | Inr results \<Rightarrow>
                (case context_str results of
                   Inl err \<Rightarrow>
                     \<lparr>response = HTTPException 500 (str_of_exn err),
                      calls = [Store_query question 5]\<rparr>
                 | Inr context \<Rightarrow>
                     (case build_sources results of
                        Inl err \<Rightarrow>
                          \<lparr>response = HTTPException 500 (str_of_exn err),
                           calls = [Store_query question 5]\<rparr>
                      | Inr sources \<Rightarrow>
                          \<lparr>response =
                             StreamingResponse (fst (generate e question context sources))
                               (snd (generate e question context sources)),
                           calls = [Store_query question 5,
                                    Model_call (messages e question context)]\<rparr>))))"

section \<open>ingest.py: the ingestion run\<close>

text \<open>
  The vector store maps a collection name to the entries of the collection.
  \<open>delete_collection\<close> raises when the collection does not exist and
  \<open>create_collection\<close> when it already does, as the client library documents.
\<close>

record chunk_metadata =
  meta_course :: string
  meta_lecture :: string
  meta_timestamp_start :: "string option"
  meta_timestamp_end :: "string option"
  meta_chunk_index :: nat

record entry =
  entry_id :: string
  entry_document :: string
  entry_metadata :: chunk_metadata

type_synonym store = "string \<rightharpoonup> entry list"

definition COLLECTION_NAME :: string where
  "COLLECTION_NAME = ''lecture_transcript''"

definition delete_collection :: "store \<Rightarrow> string \<Rightarrow> exn + store" where
  "delete_collection st name =
     (case st name of
        None \<Rightarrow> Inl (ValueError (''Collection '' @ name @ '' does not exist.''))
      | Some entries \<Rightarrow> Inr (st(name := None)))"

definition create_collection :: "store \<Rightarrow> string \<Rightarrow> exn + store" where
  "create_collection st name =
     (case st name of
        None \<Rightarrow> Inr (st(name \<mapsto> []))
      | Some entries \<Rightarrow> Inl (ValueError (''Collection '' @ name @ '' already exists.'')))"

text \<open>
  What the run reads from outside. \<open>data_dir\<close> is \<open>None\<close> when \<open>DATA_PATH\<close> does not
  exist, and otherwise lists the course folders with their \<open>.txt\<close> files, a file being
  its stem and either its content or the exception reading it raises. \<open>uuid4 k\<close> is the
  identifier of the \<open>k\<close>-th chunk collected, and \<open>add_failure n\<close> the exception
  \<open>collection.add\<close> raises for batch number \<open>n\<close>, if any.
\<close>

record ingest_env =
  DATA_PATH :: string
  data_dir :: "(string \<times> (string \<times> (exn + string)) list) list option"
  uuid4 :: "nat \<Rightarrow> string"
  add_failure :: "nat \<Rightarrow> exn option"

text \<open>
  The body of the \<open>try\<close> for one lecture file: the documents and metadata of its chunks,
  or nothing when reading, parsing or chunking raises (the file is then skipped).
\<close>

definition lecture_rows :: "string \<Rightarrow> string \<times> (exn + string) \<Rightarrow> (string \<times> chunk_metadata) list" where
  "lecture_rows course_name lecture_file =
     (case snd lecture_file of
        Inl err \<Rightarrow> []
      | Inr content \<Rightarrow>
          (case create_chunks_from_segments (parse_webvtt_content content) CHUNK_SIZE of
             Inl err \<Rightarrow> []
           | Inr cs \<Rightarrow>
               map (\<lambda>(idx, c).
                      (chunk_text c,
                       \<lparr>meta_course = course_name,
                        meta_lecture = fst lecture_file,
                        meta_timestamp_start = timestamp_start c,
                        meta_timestamp_end = timestamp_end c,
                        meta_chunk_index = idx\<rparr>))
                 (enumerate 0 cs)))"

definition all_rows :: "(string \<times> (string \<times> (exn + string)) list) list \<Rightarrow> (string \<times> chunk_metadata) list" where
  "all_rows course_folders =
     concat (map (\<lambda>course_folder.
                    concat (map (lecture_rows (fst course_folder)) (snd course_folder)))
               course_folders)"

definition all_entries :: "ingest_env \<Rightarrow> (string \<times> chunk_metadata) list \<Rightarrow> entry list" where
  "all_entries e rows =
     map (\<lambda>(k, row). \<lparr>entry_id = uuid4 e k, entry_document = fst row, entry_metadata = snd row\<rparr>)
       (enumerate 0 rows)"

definition batch_size :: nat where
  "batch_size = 50"

text \<open>
  \<open>for i in range(0, len(all_documents), batch_size)\<close>: the batch is added to the
  collection unless \<open>collection.add\<close> raises, in which case it is skipped.
\<close>

function add_batches :: "(nat \<Rightarrow> exn option) \<Rightarrow> nat \<Rightarrow> entry list \<Rightarrow> entry list \<Rightarrow> entry list" where
  "add_batches failure batch_num remaining collection =
     (if remaining = [] then collection
      else add_batches failure (batch_num + 1) (drop batch_size remaining)
             (case failure batch_num of
                None \<Rightarrow> collection @ take batch_size remaining
              | Some err \<Rightarrow> collection))"
  by pat_completeness auto
termination
  by (relation "measure (\<lambda>(failure, batch_num, remaining, collection). length remaining)")
    (auto simp add: batch_size_def)

declare add_batches.simps [simp del]

text \<open>
  \<open>ingest_data\<close>: the exception it ends with, if any, and the store it leaves. The
  failure of \<open>delete_collection\<close> is swallowed by the bare \<open>except\<close>.
\<close>

definition ingest_data :: "ingest_env \<Rightarrow> store \<Rightarrow> (exn + unit) \<times> store" where
  "ingest_data e st =
     (let st1 = (case delete_collection st COLLECTION_NAME of Inl err \<Rightarrow> st | Inr s \<Rightarrow> s)
      in case create_collection st1 COLLECTION_NAME of
           Inl err \<Rightarrow> (Inl err, st1)
         | Inr st2 \<Rightarrow>
             (case data_dir e of
                None \<Rightarrow> (Inl (ValueError (''Data directory not found: '' @ DATA_PATH e)), st2)
              | Some course_folders \<Rightarrow>
                  (Inr (),
                   st2(COLLECTION_NAME \<mapsto>
                         add_batches (add_failure e) 1
                           (all_entries e (all_rows course_folders)) []))))"

section \<open>Notions used to state the assembler's properties\<close>

text \<open>
  The end timestamp of a segment whose timestamp has an arrow; the start timestamp a run
  of segments leaves in \<open>start_timestamp\<close> (the first non-empty start, since an empty one
  is overwritten by the next fold); and the chunk a run of folded segments yields.
\<close>

definition end_of :: "segment \<Rightarrow> string" where
  "end_of seg = strip (py_split arrow (seg_timestamp seg) ! 1)"

fun group_start :: "segment list \<Rightarrow> string" where
  "group_start [] = []"
| "group_start (s # g) = (if seg_start s \<noteq> [] then seg_start s else group_start g)"

definition chunk_of :: "segment list \<Rightarrow> chunk" where
  "chunk_of g = \<lparr>chunk_text = join '' '' (map seg_text g),
                 timestamp_start = Some (group_start g),
                 timestamp_end = Some (end_of (last g))\<rparr>"

definition wf_seg :: "segment \<Rightarrow> bool" where
  "wf_seg seg = (seg_text seg \<noteq> [] \<and> contains arrow (seg_timestamp seg))"

definition pending :: "assembler \<Rightarrow> segment list \<Rightarrow> bool" where
  "pending st g =
     (if g = [] then current_text st = [] \<and> \<not> truthy (start_timestamp st)
      else current_text st = join '' '' (map seg_text g)
         \<and> start_timestamp st = Some (group_start g)
         \<and> end_timestamp st = Some (end_of (last g)))"


text \<open>
  The bound a chunk's text meets: it is one segment's text, or it is at most one
  character (the joining space the size test does not count) over the threshold.
\<close>

definition text_ok :: "segment set \<Rightarrow> int \<Rightarrow> string \<Rightarrow> bool" where
  "text_ok S T t = ((\<exists>s\<in>S. t = seg_text s) \<or> int (length t) \<le> T + 1)"


section \<open>The cue blocks of a transcript, as the specification describes them\<close>

text \<open>
  A cue is introduced by a line containing the arrow; its text lines are the lines that
  follow up to the next time-range line, blank line or end of input, each stripped. The
  segments the specification asks for are those of the cues with at least one text line,
  in cue order, their text lines joined by a single space.
\<close>

definition is_time_line :: "string \<Rightarrow> bool" where
  "is_time_line l = contains arrow (strip l)"

definition is_text_line :: "string \<Rightarrow> bool" where
  "is_text_line l = (strip l \<noteq> [] \<and> \<not> contains arrow (strip l))"

fun cues :: "string list \<Rightarrow> (string \<times> string list) list" where
  "cues [] = []"
| "cues (l # ls) =
     (if is_time_line l then (strip l, map strip (takeWhile is_text_line ls)) # cues ls
      else cues ls)"

definition cue_segments :: "string list \<Rightarrow> segment list" where
  "cue_segments ls =
     map (\<lambda>c. \<lparr>seg_timestamp = fst c, seg_text = join '' '' (snd c)\<rparr>)
       (filter (\<lambda>c. snd c \<noteq> []) (cues ls))"

section \<open>The classifier, as the specification describes it\<close>

text \<open>
  The six patterns in priority order, each with its category; the classifier returns the
  category of the first pattern that matches, or nothing when none does.
\<close>

definition category_table :: "(category \<times> string list) list" where
  "category_table = zip [Greeting, How_are_you, Who_are_you, Thanks, Bye, Ok] casual_patterns"

fun first_match :: "(category \<times> string list) list \<Rightarrow> string \<Rightarrow> category option" where
  "first_match [] s = None"
| "first_match (row # table) s = (if re_match (snd row) s then Some (fst row) else first_match table s)"

section \<open>Notions and sample collaborators for the responder's properties\<close>

text \<open>The fragments a stream of deltas contributes: the contents present and non-empty.\<close>

definition fragments :: "string option list \<Rightarrow> string list" where
  "fragments deltas = filter (\<lambda>c. c \<noteq> []) (concat (map (\<lambda>d. case d of None \<Rightarrow> [] | Some c \<Rightarrow> [c]) deltas))"

text \<open>
  A store answer of two chunks, the second longer than 200 characters and without a
  lecture in its metadata.
\<close>

definition sample_results :: query_result where
  "sample_results =
     \<lparr>ids = [''id-1'', ''id-2''],
      documents = [''short text'', replicate 201 CHR ''a''],
      metadatas =
        [[''course'' \<mapsto> ''GenAI'', ''lecture'' \<mapsto> ''RAG'', ''timestamp_start'' \<mapsto> ''00:00:01.000'',
          ''timestamp_end'' \<mapsto> ''00:00:09.000''],
         [''course'' \<mapsto> ''GenAI'']]\<rparr>"

text \<open>
  Three sets of collaborators: one whose model stream ends normally, one whose model
  stream raises after two fragments, and one whose store query raises.
\<close>

definition complete_env :: env where
  "complete_env =
     \<lparr>SYSTEM_PROMPT = ''You are Andrew Ng'',
      collection_query = (\<lambda>q n. Inr sample_results),
      chat_completions = (\<lambda>m. Inr ([Some ''Good '', None, Some '''', Some ''question''], None))\<rparr>"

definition interrupted_env :: env where
  "interrupted_env =
     \<lparr>SYSTEM_PROMPT = ''You are Andrew Ng'',
      collection_query = (\<lambda>q n. Inr sample_results),
      chat_completions =
        (\<lambda>m. Inr ([Some ''Good '', Some ''question''], Some (External ''connection reset'')))\<rparr>"

definition store_down_env :: env where
  "store_down_env =
     \<lparr>SYSTEM_PROMPT = ''You are Andrew Ng'',
      collection_query = (\<lambda>q n. Inl (External ''store unavailable'')),
      chat_completions = (\<lambda>m. Inl (External ''no credential''))\<rparr>"

section \<open>A sample ingestion run without its data directory\<close>

definition old_store :: store where
  "old_store =
     [COLLECTION_NAME \<mapsto>
        [\<lparr>entry_id = ''old-1'', entry_document = ''an old chunk'',
          entry_metadata =
            \<lparr>meta_course = ''GenAI'', meta_lecture = ''RAG'',
             meta_timestamp_start = Some ''00:00:01.000'',
             meta_timestamp_end = Some ''00:00:09.000'', meta_chunk_index = 0\<rparr>\<rparr>]]"

definition missing_dir_env :: ingest_env where
  "missing_dir_env =
     \<lparr>DATA_PATH = ''/app/backend/data'', data_dir = None,
      uuid4 = (\<lambda>k. ''uuid''), add_failure = (\<lambda>n. None)\<rparr>"

section \<open>The chunk assembler: auxiliary facts\<close>

lemma split_from_nonempty: "split_from sep cur s \<noteq> []"
  by (induction sep cur s rule: split_from.induct) (subst split_from.simps, simp)

lemma split_from_contains:
  "sep \<noteq> [] \<Longrightarrow> (1 < length (split_from sep cur s)) = contains sep s"
proof (induction sep cur s rule: split_from.induct)
  case (1 sep cur s)
  show ?case
  proof (cases s)
    case Nil
    with 1(3) show ?thesis by (subst split_from.simps) simp
  next
    case (Cons c cs)
    show ?thesis
    proof (cases "prefix sep s")
      case True
      have "split_from sep [] (drop (length sep) s) \<noteq> []"
        by (rule split_from_nonempty)
      then have "0 < length (split_from sep [] (drop (length sep) s))"
        by simp
      with True Cons 1(3) show ?thesis
        by (subst split_from.simps) simp
    next
      case False
      with 1(2) [OF _ _ 1(3)] Cons 1(3)
      have "(1 < length (split_from sep (cur @ [hd s]) (tl s))) = contains sep (tl s)"
        by simp
      with False Cons show ?thesis
        by (subst split_from.simps) simp
    qed
  qed
qed

lemma py_split_contains: "sep \<noteq> [] \<Longrightarrow> (1 < length (py_split sep s)) = contains sep s"
  unfolding py_split_def by (rule split_from_contains)

lemma arrow_nonempty: "arrow \<noteq> []"
  by (simp add: arrow_def)

lemma seg_end_wf: "contains arrow (seg_timestamp seg) \<Longrightarrow> seg_end seg = Inr (end_of seg)"
  using py_split_contains [OF arrow_nonempty, of "seg_timestamp seg"]
  by (simp add: seg_end_def end_of_def Let_def)

lemma seg_end_no_arrow: "\<not> contains arrow (seg_timestamp seg) \<Longrightarrow> seg_end seg = Inl IndexError"
  using py_split_contains [OF arrow_nonempty, of "seg_timestamp seg"]
  by (simp add: seg_end_def Let_def)

lemma join_append:
  "xs \<noteq> [] \<Longrightarrow> ys \<noteq> [] \<Longrightarrow> join sep (xs @ ys) = join sep xs @ sep @ join sep ys"
proof (induction sep xs rule: join.induct)
  case (2 sep x)
  then show ?case by (cases ys) simp_all
qed simp_all

lemma join_concat:
  "[] \<notin> set xss \<Longrightarrow> join sep (map (join sep) xss) = join sep (concat xss)"
proof (induction xss)
  case Nil
  show ?case by simp
next
  case (Cons xs xss)
  show ?case
  proof (cases xss)
    case Nil
    then show ?thesis by simp
  next
    case (Cons ys yss)
    with Cons.prems have ne: "xs \<noteq> []" "concat xss \<noteq> []"
      by auto
    from Cons.prems Cons.IH have "join sep (map (join sep) xss) = join sep (concat xss)"
      by simp
    with Cons ne show ?thesis
      by (simp add: join_append)
  qed
qed

lemma join_nonempty: "xs \<noteq> [] \<Longrightarrow> hd xs \<noteq> [] \<Longrightarrow> join sep xs \<noteq> []"
  by (induction sep xs rule: join.induct) simp_all

lemma group_start_snoc:
  "group_start (g @ [x]) = (if group_start g \<noteq> [] then group_start g else seg_start x)"
  by (induction g) simp_all

lemma pending_nonempty:
  assumes "pending st g" and "\<forall>s\<in>set g. wf_seg s"
  shows "(current_text st \<noteq> []) = (g \<noteq> [])"
proof (cases g)
  case Nil
  with assms show ?thesis by (simp add: pending_def)
next
  case (Cons s g')
  with assms(2) have "join '' '' (map seg_text g) \<noteq> []"
    by (intro join_nonempty) (simp_all add: wf_seg_def)
  with assms(1) Cons show ?thesis by (simp add: pending_def)
qed

lemma fold_segment_step:
  assumes p: "pending st g" and wg: "\<forall>s\<in>set g. wf_seg s" and wx: "wf_seg x"
  shows "\<exists>st'. fold_segment T st x = Inr st' \<and>
           (if current_text st \<noteq> [] \<and> int (length (current_text st)) + int (length (seg_text x)) > T
            then chunks st' = chunks st @ [chunk_of g] \<and> g \<noteq> [] \<and> pending st' [x]
            else chunks st' = chunks st \<and> pending st' (g @ [x]))"
proof -
  from wx have e: "seg_end x = Inr (end_of x)"
    by (simp add: wf_seg_def seg_end_wf)
  from p wg have ne: "(current_text st \<noteq> []) = (g \<noteq> [])"
    by (rule pending_nonempty)
  show ?thesis
  proof (cases "current_text st \<noteq> [] \<and> int (length (current_text st)) + int (length (seg_text x)) > T")
    case True
    with ne have g: "g \<noteq> []" by simp
    with p have "\<lparr>chunk_text = current_text st, timestamp_start = start_timestamp st,
        timestamp_end = end_timestamp st\<rparr> = chunk_of g"
      by (simp add: pending_def chunk_of_def)
    with True g e show ?thesis
      by (simp add: fold_segment_def flush_def add_segment_def pending_def)
  next
    case False
    then have f: "flush T st x = st"
      unfolding flush_def by (rule if_not_P)
    show ?thesis
    proof (cases "g = []")
      case True
      with p e f False show ?thesis
        by (simp add: fold_segment_def add_segment_def pending_def)
    next
      case g: False
      with ne have c: "current_text st \<noteq> []" by simp
      from g have "join '' '' (map seg_text (g @ [x])) = join '' '' (map seg_text g) @ '' '' @ seg_text x"
        by (simp add: join_append)
      with p e f False g c show ?thesis
        by (simp add: fold_segment_def add_segment_def pending_def group_start_snoc)
    qed
  qed
qed


lemma run_segments_groups:
  assumes "pending st g" and "\<forall>s\<in>set g. wf_seg s" and "\<forall>s\<in>set segs. wf_seg s"
  shows "\<exists>st' gs g'. run_segments T st segs = Inr st' \<and> chunks st' = chunks st @ map chunk_of gs
           \<and> concat gs @ g' = g @ segs \<and> [] \<notin> set gs \<and> pending st' g'"
  using assms
proof (induction segs arbitrary: st g)
  case Nil
  then have "run_segments T st [] = Inr st \<and> chunks st = chunks st @ map chunk_of []
      \<and> concat [] @ g = g @ [] \<and> [] \<notin> set ([] :: segment list list) \<and> pending st g"
    by simp
  then show ?case by blast
next
  case (Cons x segs)
  from Cons.prems have wx: "wf_seg x" and ws: "\<forall>s\<in>set segs. wf_seg s"
    by simp_all
  from fold_segment_step [OF Cons.prems(1) Cons.prems(2) wx, of T]
  obtain st1 where f: "fold_segment T st x = Inr st1"
    and c: "if current_text st \<noteq> [] \<and> int (length (current_text st)) + int (length (seg_text x)) > T
            then chunks st1 = chunks st @ [chunk_of g] \<and> g \<noteq> [] \<and> pending st1 [x]
            else chunks st1 = chunks st \<and> pending st1 (g @ [x])"
    by blast
  show ?case
  proof (cases "current_text st \<noteq> [] \<and> int (length (current_text st)) + int (length (seg_text x)) > T")
    case True
    with c have c1: "chunks st1 = chunks st @ [chunk_of g]" and g: "g \<noteq> []" and p1: "pending st1 [x]"
      by simp_all
    from wx have "\<forall>s\<in>set [x]. wf_seg s" by simp
    from Cons.IH [OF p1 this ws]
    obtain st' gs g' where r: "run_segments T st1 segs = Inr st'"
      and cs: "chunks st' = chunks st1 @ map chunk_of gs"
      and cc: "concat gs @ g' = [x] @ segs" and n: "[] \<notin> set gs" and p': "pending st' g'"
      by blast
    from f r c1 cs cc n g p'
    have "run_segments T st (x # segs) = Inr st' \<and> chunks st' = chunks st @ map chunk_of (g # gs)
        \<and> concat (g # gs) @ g' = g @ x # segs \<and> [] \<notin> set (g # gs) \<and> pending st' g'"
      by simp
    then show ?thesis by blast
  next
    case False
    with c have c1: "chunks st1 = chunks st" and p1: "pending st1 (g @ [x])"
      by simp_all
    from wx Cons.prems(2) have "\<forall>s\<in>set (g @ [x]). wf_seg s" by simp
    from Cons.IH [OF p1 this ws]
    obtain st' gs g' where r: "run_segments T st1 segs = Inr st'"
      and cs: "chunks st' = chunks st1 @ map chunk_of gs"
      and cc: "concat gs @ g' = (g @ [x]) @ segs" and n: "[] \<notin> set gs" and p': "pending st' g'"
      by blast
    from f r c1 cs cc n p'
    have "run_segments T st (x # segs) = Inr st' \<and> chunks st' = chunks st @ map chunk_of gs
        \<and> concat gs @ g' = g @ x # segs \<and> [] \<notin> set gs \<and> pending st' g'"
      by simp
    then show ?thesis by blast
  qed
qed

lemma create_chunks_groups:
  assumes "\<forall>s\<in>set segs. wf_seg s"
  shows "\<exists>gs. create_chunks_from_segments segs T = Inr (map chunk_of gs)
           \<and> concat gs = segs \<and> [] \<notin> set gs"
proof -
  have "pending init_assembler []"
    by (simp add: pending_def init_assembler_def)
  from run_segments_groups [OF this _ assms, of T]
  obtain st' gs g' where r: "run_segments T init_assembler segs = Inr st'"
    and cs: "chunks st' = chunks init_assembler @ map chunk_of gs"
    and cc: "concat gs @ g' = [] @ segs" and n: "[] \<notin> set gs" and p': "pending st' g'"
    by auto
  from cc assms have wg: "\<forall>s\<in>set g'. wf_seg s"
    by (metis Un_iff append_Nil set_append)
  from pending_nonempty [OF p' wg] have ne: "(current_text st' \<noteq> []) = (g' \<noteq> [])" .
  show ?thesis
  proof (cases "g' = []")
    case True
    with r cs cc n ne have "create_chunks_from_segments segs T = Inr (map chunk_of gs)
        \<and> concat gs = segs \<and> [] \<notin> set gs"
      by (simp add: create_chunks_from_segments_def final_chunks_def init_assembler_def)
    then show ?thesis by blast
  next
    case False
    with p' have "\<lparr>chunk_text = current_text st', timestamp_start = start_timestamp st',
        timestamp_end = end_timestamp st'\<rparr> = chunk_of g'"
      by (simp add: pending_def chunk_of_def)
    with False r cs cc n ne have "create_chunks_from_segments segs T = Inr (map chunk_of (gs @ [g']))
        \<and> concat (gs @ [g']) = segs \<and> [] \<notin> set (gs @ [g'])"
      by (simp add: create_chunks_from_segments_def final_chunks_def init_assembler_def)
    then show ?thesis by blast
  qed
qed

lemma run_segments_total:
  "\<forall>s\<in>set segs. contains arrow (seg_timestamp s) \<Longrightarrow> \<exists>st'. run_segments T st segs = Inr st'"
proof (induction segs arbitrary: st)
  case Nil
  show ?case by simp
next
  case (Cons x segs)
  then have "seg_end x = Inr (end_of x)"
    by (simp add: seg_end_wf)
  then obtain st1 where "fold_segment T st x = Inr st1"
    by (simp add: fold_segment_def add_segment_def)
  moreover from Cons obtain st' where "run_segments T st1 segs = Inr st'"
    by auto
  ultimately show ?case by simp
qed

lemma fold_segment_bound:
  assumes f: "fold_segment T st x = Inr st1" and x: "x \<in> S"
    and c: "\<forall>c\<in>set (chunks st). text_ok S T (chunk_text c)"
    and t: "current_text st = [] \<or> text_ok S T (current_text st)"
  shows "(\<forall>c\<in>set (chunks st1). text_ok S T (chunk_text c))
       \<and> (current_text st1 = [] \<or> text_ok S T (current_text st1))"
proof -
  from f obtain e where e: "seg_end x = Inr e"
    by (cases "seg_end x") (simp_all add: fold_segment_def add_segment_def)
  from x have tx: "text_ok S T (seg_text x)"
    by (auto simp add: text_ok_def)
  show ?thesis
  proof (cases "current_text st \<noteq> [] \<and> int (length (current_text st)) + int (length (seg_text x)) > T")
    case True
    then have "flush T st x = st\<lparr>chunks := chunks st @
                  [\<lparr>chunk_text = current_text st,
                    timestamp_start = start_timestamp st,
                    timestamp_end = end_timestamp st\<rparr>],
              current_text := [],
              start_timestamp := None\<rparr>"
      by (simp add: flush_def)
    with f e have "chunks st1 = chunks st @ [\<lparr>chunk_text = current_text st,
                    timestamp_start = start_timestamp st,
                    timestamp_end = end_timestamp st\<rparr>]" and "current_text st1 = seg_text x"
      by (auto simp add: fold_segment_def add_segment_def)
    with c t tx True show ?thesis by auto
  next
    case False
    then have fl: "flush T st x = st"
      unfolding flush_def by (rule if_not_P)
    show ?thesis
    proof (cases "current_text st = []")
      case True
      with f e fl have "chunks st1 = chunks st" and "current_text st1 = seg_text x"
        by (auto simp add: fold_segment_def add_segment_def)
      with c tx show ?thesis by simp
    next
      case ne: False
      with f e fl have c1: "chunks st1 = chunks st"
        and t1: "current_text st1 = current_text st @ '' '' @ seg_text x"
        by (auto simp add: fold_segment_def add_segment_def)
      from ne False have "int (length (current_text st)) + int (length (seg_text x)) \<le> T"
        by simp
      then have "int (length (current_text st @ '' '' @ seg_text x)) \<le> T + 1"
        by simp
      then have "text_ok S T (current_text st @ '' '' @ seg_text x)"
        by (simp add: text_ok_def)
      with c c1 t1 show ?thesis by simp
    qed
  qed
qed

lemma run_segments_bound:
  assumes "run_segments T st segs = Inr st'" and "set segs \<subseteq> S"
    and "\<forall>c\<in>set (chunks st). text_ok S T (chunk_text c)"
    and "current_text st = [] \<or> text_ok S T (current_text st)"
  shows "(\<forall>c\<in>set (chunks st'). text_ok S T (chunk_text c))
       \<and> (current_text st' = [] \<or> text_ok S T (current_text st'))"
  using assms
proof (induction segs arbitrary: st)
  case Nil
  then show ?case by simp
next
  case (Cons x segs)
  from Cons.prems(1) obtain st1 where f: "fold_segment T st x = Inr st1"
    and r: "run_segments T st1 segs = Inr st'"
    by (cases "fold_segment T st x") simp_all
  from Cons.prems(2) have x: "x \<in> S" and s: "set segs \<subseteq> S"
    by simp_all
  from fold_segment_bound [OF f x Cons.prems(3) Cons.prems(4)]
  have "\<forall>c\<in>set (chunks st1). text_ok S T (chunk_text c)"
    and "current_text st1 = [] \<or> text_ok S T (current_text st1)"
    by simp_all
  with Cons.IH [OF r s] show ?case by blast
qed

lemma create_chunks_bound:
  assumes "create_chunks_from_segments segs T = Inr cs"
  shows "\<forall>c\<in>set cs. text_ok (set segs) T (chunk_text c)"
proof -
  from assms obtain st' where r: "run_segments T init_assembler segs = Inr st'"
    and cs: "cs = final_chunks st'"
    by (cases "run_segments T init_assembler segs")
      (auto simp add: create_chunks_from_segments_def)
  have "(\<forall>c\<in>set (chunks st'). text_ok (set segs) T (chunk_text c))
       \<and> (current_text st' = [] \<or> text_ok (set segs) T (current_text st'))"
    by (rule run_segments_bound [OF r]) (simp_all add: init_assembler_def)
  with cs show ?thesis
    by (auto simp add: final_chunks_def)
qed

text \<open>
  What holds of the time range of every chunk: the end is always the end of the last
  segment folded in, and the start is the start of the first one provided that start is
  not the empty string.
\<close>

lemma group_start_hd: "g \<noteq> [] \<Longrightarrow> seg_start (hd g) \<noteq> [] \<Longrightarrow> group_start g = seg_start (hd g)"
  by (cases g) simp_all

lemma chunk_time_range:
  assumes w: "\<forall>s\<in>set segs. wf_seg s" and n: "\<forall>s\<in>set segs. seg_start s \<noteq> []"
  shows "\<exists>gs. create_chunks_from_segments segs T
             = Inr (map (\<lambda>g. \<lparr>chunk_text = join '' '' (map seg_text g),
                               timestamp_start = Some (seg_start (hd g)),
                               timestamp_end = Some (end_of (last g))\<rparr>) gs)
           \<and> concat gs = segs \<and> [] \<notin> set gs"
proof -
  from create_chunks_groups [OF w, of T]
  obtain gs where r: "create_chunks_from_segments segs T = Inr (map chunk_of gs)"
    and c: "concat gs = segs" and e: "[] \<notin> set gs"
    by blast
  have "chunk_of g = \<lparr>chunk_text = join '' '' (map seg_text g),
                      timestamp_start = Some (seg_start (hd g)),
                      timestamp_end = Some (end_of (last g))\<rparr>" if g: "g \<in> set gs" for g
  proof -
    from g e have ne: "g \<noteq> []" by auto
    then have "hd g \<in> set g" by simp
    with g c have "hd g \<in> set segs" by auto
    with n have "seg_start (hd g) \<noteq> []" by simp
    with ne show ?thesis
      by (simp add: chunk_of_def group_start_hd)
  qed
  then have "map chunk_of gs = map (\<lambda>g. \<lparr>chunk_text = join '' '' (map seg_text g),
                               timestamp_start = Some (seg_start (hd g)),
                               timestamp_end = Some (end_of (last g))\<rparr>) gs"
    by (intro map_cong) simp_all
  with r c e show ?thesis by auto
qed

section \<open>The transcript parser: auxiliary facts\<close>

lemma collect_text_eq:
  "collect_text lines i acc =
     (i + length (takeWhile is_text_line (drop i lines)),
      acc @ map strip (takeWhile is_text_line (drop i lines)))"
proof (induction lines i acc rule: collect_text.induct)
  case (1 lines i acc)
  show ?case
  proof (cases "i < length lines")
    case False
    then show ?thesis
      by (subst collect_text.simps) simp
  next
    case True
    then have d: "drop i lines = lines ! i # drop (Suc i) lines"
      by (simp add: Cons_nth_drop_Suc)
    show ?thesis
    proof (cases "is_text_line (lines ! i)")
      case False
      with True d show ?thesis
        by (subst collect_text.simps) (auto simp add: is_text_line_def Let_def)
    next
      case t: True
      with True have "collect_text lines (i + 1) (acc @ [strip (lines ! i)]) =
          (i + 1 + length (takeWhile is_text_line (drop (i + 1) lines)),
           (acc @ [strip (lines ! i)]) @ map strip (takeWhile is_text_line (drop (i + 1) lines)))"
        by (intro 1) (auto simp add: is_text_line_def)
      with True t d show ?thesis
        by (subst collect_text.simps) (auto simp add: is_text_line_def Let_def)
    qed
  qed
qed

lemma cues_dropWhile: "cues (dropWhile is_text_line ls) = cues ls"
  by (induction ls) (auto simp add: is_text_line_def is_time_line_def)

lemma cue_segments_Cons:
  "cue_segments (l # ls) =
     (if is_time_line l \<and> takeWhile is_text_line ls \<noteq> []
      then [\<lparr>seg_timestamp = strip l,
              seg_text = join '' '' (map strip (takeWhile is_text_line ls))\<rparr>]
      else []) @ cue_segments (dropWhile is_text_line ls)"
proof -
  have "cue_segments (dropWhile is_text_line ls) = cue_segments ls"
    by (simp add: cue_segments_def cues_dropWhile)
  then show ?thesis
    by (simp add: cue_segments_def)
qed

lemma parse_loop_cues: "parse_loop lines i segments = segments @ cue_segments (drop i lines)"
proof (induction lines i segments rule: parse_loop.induct)
  case (1 lines i segments)
  show ?case
  proof (cases "i < length lines")
    case False
    then show ?thesis
      by (subst parse_loop.simps) (simp add: cue_segments_def)
  next
    case True
    then have d: "drop i lines = lines ! i # drop (Suc i) lines"
      by (simp add: Cons_nth_drop_Suc)
    let ?tw = "takeWhile is_text_line (drop (Suc i) lines)"
    show ?thesis
    proof (cases "is_time_line (lines ! i)")
      case False
      with True have "parse_loop lines (i + 1) segments = segments @ cue_segments (drop (i + 1) lines)"
        by (intro 1) (auto simp add: is_time_line_def)
      moreover from False have "cue_segments (drop i lines) = cue_segments (drop (Suc i) lines)"
        unfolding d by (simp add: cue_segments_def)
      ultimately show ?thesis
        using True False
        by (subst parse_loop.simps) (simp add: is_time_line_def Let_def)
    next
      case t: True
      have r: "collect_text lines (i + 1) [] = (Suc i + length ?tw, map strip ?tw)"
        by (simp add: collect_text_eq)
      let ?segs = "if map strip ?tw \<noteq> []
                   then segments @ [\<lparr>seg_timestamp = strip (lines ! i),
                                     seg_text = join '' '' (map strip ?tw)\<rparr>]
                   else segments"
      have dd: "drop (Suc i + length ?tw) lines = dropWhile is_text_line (drop (Suc i) lines)"
        by (simp add: dropWhile_eq_drop add.commute)
      from True t r have "parse_loop lines (fst (collect_text lines (i + 1) []))
           (if snd (collect_text lines (i + 1) []) \<noteq> []
            then segments @ [\<lparr>seg_timestamp = strip (lines ! i),
                    seg_text = join '' '' (snd (collect_text lines (i + 1) []))\<rparr>]
            else segments)
         = (if snd (collect_text lines (i + 1) []) \<noteq> []
            then segments @ [\<lparr>seg_timestamp = strip (lines ! i),
                    seg_text = join '' '' (snd (collect_text lines (i + 1) []))\<rparr>]
            else segments) @ cue_segments (drop (fst (collect_text lines (i + 1) [])) lines)"
        by (intro 1) (auto simp add: is_time_line_def)
      then have ih: "parse_loop lines (Suc i + length ?tw) ?segs
         = ?segs @ cue_segments (dropWhile is_text_line (drop (Suc i) lines))"
        by (simp only: r fst_conv snd_conv dd)
      have c: "cue_segments (drop i lines) =
          (if ?tw \<noteq> []
           then [\<lparr>seg_timestamp = strip (lines ! i), seg_text = join '' '' (map strip ?tw)\<rparr>]
           else []) @ cue_segments (dropWhile is_text_line (drop (Suc i) lines))"
        unfolding d using t by (simp add: cue_segments_Cons)
      from r have r': "collect_text lines (Suc i) [] = (Suc i + length ?tw, map strip ?tw)"
        by simp
      have "parse_loop lines i segments = parse_loop lines (Suc i + length ?tw) ?segs"
        using True t
        by (subst parse_loop.simps) (simp add: is_time_line_def Let_def r')
      with ih c show ?thesis
        by simp
    qed
  qed
qed


lemma cue_segments_wf: "\<forall>s\<in>set (cue_segments ls). wf_seg s"
proof (induction ls)
  case Nil
  show ?case by (simp add: cue_segments_def)
next
  case (Cons l ls)
  have "cue_segments (dropWhile is_text_line ls) = cue_segments ls"
    by (simp add: cue_segments_def cues_dropWhile)
  moreover have "join '' '' (map strip (takeWhile is_text_line ls)) \<noteq> []"
    if "takeWhile is_text_line ls \<noteq> []"
  proof (rule join_nonempty)
    from that show "map strip (takeWhile is_text_line ls) \<noteq> []" by simp
    from that have "hd (takeWhile is_text_line ls) \<in> set (takeWhile is_text_line ls)"
      by simp
    then have "is_text_line (hd (takeWhile is_text_line ls))"
      by (rule set_takeWhileD [THEN conjunct2])
    with that show "hd (map strip (takeWhile is_text_line ls)) \<noteq> []"
      by (simp add: hd_map is_text_line_def)
  qed
  ultimately show ?case
    using Cons by (auto simp add: cue_segments_Cons wf_seg_def is_time_line_def)
qed

lemma parser_output_wf: "\<forall>s\<in>set (parse_webvtt_content content). wf_seg s"
  by (simp add: parse_webvtt_content_def parse_loop_cues cue_segments_wf)


lemma parsed_segments_assemble:
  "\<exists>gs. create_chunks_from_segments (parse_webvtt_content content) T = Inr (map chunk_of gs)
         \<and> concat gs = parse_webvtt_content content \<and> [] \<notin> set gs"
  by (rule create_chunks_groups) (rule parser_output_wf)

section \<open>The query endpoint: auxiliary facts\<close>

lemma isspace_lower_char: "isspace (lower_char c) = isspace c"
  by (auto simp add: isspace_def lower_char_def Let_def)

lemma strip_pad:
  assumes l: "\<forall>c\<in>set l. isspace c" and r: "\<forall>c\<in>set r. isspace c"
  shows "strip (l @ s @ r) = strip s"
proof -
  from l have d: "dropWhile isspace (l @ s @ r) = dropWhile isspace (s @ r)"
    by simp
  have u: "strip (l @ s @ r) = rev (dropWhile isspace (rev (dropWhile isspace (s @ r))))"
    by (simp only: strip_def d)
  show ?thesis
  proof (cases "\<forall>c\<in>set s. isspace c")
    case True
    with r have e1: "dropWhile isspace (s @ r) = []"
      by simp
    from True have e2: "dropWhile isspace s = []"
      by simp
    have "strip (l @ s @ r) = []"
      unfolding u e1 by simp
    moreover have "strip s = []"
      unfolding strip_def e2 by simp
    ultimately show ?thesis by simp
  next
    case False
    then obtain x where "x \<in> set s" and "\<not> isspace x"
      by blast
    then have e1: "dropWhile isspace (s @ r) = dropWhile isspace s @ r"
      by simp
    have e2: "dropWhile isspace (rev r @ rev (dropWhile isspace s))
        = dropWhile isspace (rev (dropWhile isspace s))"
      by (rule dropWhile_append2) (use r in simp)
    have "strip (l @ s @ r) = rev (dropWhile isspace (rev r @ rev (dropWhile isspace s)))"
      unfolding u e1 by simp
    then show ?thesis
      unfolding e2 strip_def .
  qed
qed

lemma lower_pad:
  assumes "\<forall>c\<in>set l. isspace c" and "\<forall>c\<in>set r. isspace c"
  shows "strip (lower (l @ q @ r)) = strip (lower q)"
proof -
  have "lower (l @ q @ r) = lower l @ lower q @ lower r"
    by (simp add: lower_def)
  moreover from assms have "\<forall>c\<in>set (lower l). isspace c" and "\<forall>c\<in>set (lower r). isspace c"
    by (simp_all add: lower_def isspace_lower_char)
  ultimately show ?thesis
    by (simp add: strip_pad)
qed

lemma classify_first_match: "classify q = first_match category_table (strip (lower q))"
  by (simp add: classify_def is_casual_def response_key_def category_table_def
      casual_patterns_def Let_def)

lemma classify_None: "(classify q = None) = (\<not> is_casual (strip (lower q)))"
  by (simp add: classify_def Let_def)

lemma query_lecture_calls: "(calls (query_lecture e q) = []) = is_casual (strip (lower q))"
  by (simp add: query_lecture_def Let_def split: sum.splits)



lemma sources_loop_eq:
  assumes "\<forall>i\<in>set idxs. i < length (metadatas results) \<and> i < length (documents results)"
  shows "sources_loop results idxs acc = Inr (acc @ map (\<lambda>i.
              \<lparr>course = metadata_get (metadatas results ! i) ''course'' ''Unknown'',
                lecture = metadata_get (metadatas results ! i) ''lecture'' ''Unknown'',
                source_timestamp_start =
                  metadata_get (metadatas results ! i) ''timestamp_start'' ''00:00:00.000'',
                source_timestamp_end =
                  metadata_get (metadatas results ! i) ''timestamp_end'' ''00:00:00.000'',
                source_text = excerpt (documents results ! i)\<rparr>) idxs)"
  using assms by (induction idxs arbitrary: acc) simp_all

lemma sources_loop_fails:
  assumes "\<exists>i\<in>set idxs. \<not> (i < length (metadatas results) \<and> i < length (documents results))"
  shows "sources_loop results idxs acc = Inl IndexError"
  using assms by (induction idxs arbitrary: acc) auto

lemma stream_events_fragments: "stream_events deltas = map Content (fragments deltas)"
  by (induction deltas rule: stream_events.induct) (simp_all add: fragments_def)

lemma generate_completes:
  "chat_completions e (messages e question context) = Inr (deltas, None) \<Longrightarrow>
   generate e question context sources
     = (map Content (fragments deltas) @ [Content closing_message, Sources sources, Done], None)"
  by (simp add: generate_def stream_events_fragments)

lemma generate_interrupted:
  "chat_completions e (messages e question context) = Inr (deltas, Some err) \<Longrightarrow>
   generate e question context sources = (map Content (fragments deltas), Some err)"
  by (simp add: generate_def stream_events_fragments)

lemma generate_shape:
  "\<exists>contents. fst (generate e question context sources)
      = map Content contents @
        (if snd (generate e question context sources) = None
         then [Content closing_message, Sources sources, Done] else [])"
proof (cases "chat_completions e (messages e question context)")
  case (Inl err)
  then have "generate e question context sources = (map Content [], Some err)"
    by (simp add: generate_def)
  then show ?thesis by (intro exI [of _ "[]"]) simp
next
  case (Inr p)
  obtain deltas failure where p: "p = (deltas, failure)"
    by (cases p)
  show ?thesis
  proof (cases failure)
    case None
    with Inr p generate_completes [of e question "context" deltas sources] show ?thesis
      by (intro exI [of _ "fragments deltas"]) simp
  next
    case (Some err)
    with Inr p generate_interrupted [of e question "context" deltas err sources] show ?thesis
      by (intro exI [of _ "fragments deltas"]) simp
  qed
qed

lemma query_lecture_retrieval:
  assumes "\<not> is_casual (strip (lower question))"
    and "collection_query e question 5 = Inr results"
    and "context_str results = Inr context"
    and "build_sources results = Inr sources"
  shows "query_lecture e question =
     \<lparr>response = StreamingResponse (fst (generate e question context sources))
                   (snd (generate e question context sources)),
      calls = [Store_query question 5, Model_call (messages e question context)]\<rparr>"
  using assms by (simp add: query_lecture_def Let_def)


lemma sample_context:
  "context_str sample_results
     = Inr (''[ID: id-1] short text\<newline>\<newline>[ID: id-2] '' @ replicate 201 CHR ''a'')"
  by (simp add: context_str_def sample_results_def enumerate_eq_zip)

lemma sample_sources:
  "build_sources sample_results
     = Inr [\<lparr>course = ''GenAI'', lecture = ''RAG'', source_timestamp_start = ''00:00:01.000'',
             source_timestamp_end = ''00:00:09.000'', source_text = ''short text''\<rparr>,
            \<lparr>course = ''GenAI'', lecture = ''Unknown'', source_timestamp_start = ''00:00:00.000'',
             source_timestamp_end = ''00:00:00.000'',
             source_text = replicate 200 CHR ''a'' @ ''...''\<rparr>]"
  by (simp add: build_sources_def sample_results_def upt_rec metadata_get_def excerpt_def)

lemma sample_question: "\<not> is_casual (strip (lower ''What is RAG?''))"
  by code_simp


section \<open>The ingestion run: auxiliary facts\<close>

lemma wipe_collection:
  "create_collection
     (case delete_collection st COLLECTION_NAME of Inl err \<Rightarrow> st | Inr s \<Rightarrow> s) COLLECTION_NAME
   = Inr (st(COLLECTION_NAME \<mapsto> []))"
  by (cases "st COLLECTION_NAME") (simp_all add: delete_collection_def create_collection_def)


section \<open>The chunk assembler: properties\<close>

text \<open>
  Claim C1, as amended. For every sequence of segments whose texts are non-empty and whose
  timestamps contain the arrow (as every segment the parser emits), and for every
  threshold, \<open>create_chunks_from_segments\<close> returns chunks whose texts, joined by single
  spaces, equal the segments' texts joined by single spaces; and the chunks cut the
  sequence into consecutive non-empty runs \<open>gs\<close>, each chunk's text being the space-joined
  texts of its run, so that every segment lies in exactly one chunk, in input order.
\<close>

theorem C1_chunks_reconstruct_text:
  assumes "\<forall>s\<in>set segments. seg_text s \<noteq> [] \<and> contains arrow (seg_timestamp s)"
  shows "\<exists>cs gs. create_chunks_from_segments segments chunk_size = Inr cs
           \<and> join '' '' (map chunk_text cs) = join '' '' (map seg_text segments)
           \<and> concat gs = segments \<and> [] \<notin> set gs
           \<and> map chunk_text cs = map (\<lambda>g. join '' '' (map seg_text g)) gs"
proof -
  from assms have "\<forall>s\<in>set segments. wf_seg s"
    by (simp add: wf_seg_def)
  from create_chunks_groups [OF this, of chunk_size]
  obtain gs where r: "create_chunks_from_segments segments chunk_size = Inr (map chunk_of gs)"
    and c: "concat gs = segments" and n: "[] \<notin> set gs"
    by blast
  have t: "map chunk_text (map chunk_of gs) = map (\<lambda>g. join '' '' (map seg_text g)) gs"
    by (simp add: chunk_of_def)
  have m: "map (\<lambda>g. join '' '' (map seg_text g)) gs = map (join '' '') (map (map seg_text) gs)"
    by simp
  from n have ne: "[] \<notin> set (map (map seg_text) gs)"
    by auto
  have "join '' '' (map chunk_text (map chunk_of gs))
      = join '' '' (map (join '' '') (map (map seg_text) gs))"
    by (simp only: t m)
  also from ne have "\<dots> = join '' '' (concat (map (map seg_text) gs))"
    by (rule join_concat)
  also have "\<dots> = join '' '' (map seg_text (concat gs))"
    by (simp only: map_concat)
  also have "\<dots> = join '' '' (map seg_text segments)"
    by (simp only: c)
  finally have j: "join '' '' (map chunk_text (map chunk_of gs))
      = join '' '' (map seg_text segments)" .
  from r j c n t show ?thesis by blast
qed

text \<open>The theorem at three segments and threshold 4.\<close>

theorem C1_chunks_reconstruct_text_witness:
  "\<exists>cs gs. create_chunks_from_segments
       [\<lparr>seg_timestamp = ''0 --> 1'', seg_text = ''ab''\<rparr>,
        \<lparr>seg_timestamp = ''1 --> 2'', seg_text = ''cd''\<rparr>,
        \<lparr>seg_timestamp = ''2 --> 3'', seg_text = ''e''\<rparr>] 4 = Inr cs
     \<and> join '' '' (map chunk_text cs) = ''ab cd e''
     \<and> concat gs = [\<lparr>seg_timestamp = ''0 --> 1'', seg_text = ''ab''\<rparr>,
        \<lparr>seg_timestamp = ''1 --> 2'', seg_text = ''cd''\<rparr>,
        \<lparr>seg_timestamp = ''2 --> 3'', seg_text = ''e''\<rparr>]
     \<and> [] \<notin> set gs
     \<and> map chunk_text cs = map (\<lambda>g. join '' '' (map seg_text g)) gs"
  using C1_chunks_reconstruct_text [of "[\<lparr>seg_timestamp = ''0 --> 1'', seg_text = ''ab''\<rparr>,
        \<lparr>seg_timestamp = ''1 --> 2'', seg_text = ''cd''\<rparr>,
        \<lparr>seg_timestamp = ''2 --> 3'', seg_text = ''e''\<rparr>]" 4]
  by (simp add: arrow_def)

text \<open>
  Claim C1 as stated, for every segment sequence, fails at a segment with an empty text:
  after folding it the accumulator is still the empty string, which the code reads as "no
  chunk open", so the next text is stored without a joining space. The chunks' texts
  give \<open>a\<close> where the segments' texts joined give a space followed by \<open>a\<close>.
\<close>

theorem C1_empty_text_counterexample:
  "create_chunks_from_segments
       [\<lparr>seg_timestamp = ''0 --> 1'', seg_text = ''''\<rparr>,
        \<lparr>seg_timestamp = ''1 --> 2'', seg_text = ''a''\<rparr>] 1000
     = Inr [\<lparr>chunk_text = ''a'', timestamp_start = Some ''0'', timestamp_end = Some ''2''\<rparr>]
   \<and> join '' '' (map chunk_text
         [\<lparr>chunk_text = ''a'', timestamp_start = Some ''0'', timestamp_end = Some ''2''\<rparr>])
     \<noteq> join '' '' (map seg_text
         [\<lparr>seg_timestamp = ''0 --> 1'', seg_text = ''''\<rparr>,
          \<lparr>seg_timestamp = ''1 --> 2'', seg_text = ''a''\<rparr>])"
  by (simp add: create_chunks_from_segments_def init_assembler_def final_chunks_def
      fold_segment_def flush_def add_segment_def seg_start_def seg_end_def py_split_def
      split_from.simps arrow_def strip_def isspace_def Let_def)


text \<open>
  Claim C2, as amended. One pass of the loop body closes the current chunk exactly when
  \<open>current_text\<close> is non-empty and \<open>len(current_text) + len(segment text) > T\<close>, the
  comparison being strict: when the sum is exactly \<open>T\<close> nothing is closed and the segment
  is folded in, which makes the accumulator \<open>T + 1\<close> characters long, because the joining
  space is not counted by the test. Consequently, for segments whose timestamps contain
  the arrow, the assembler returns chunks each of which is either the text of a single
  segment or at most \<open>T + 1\<close> characters long.
\<close>

theorem C2_flush_rule_and_size_bound:
  "(fold_segment T st seg = Inr st' \<longrightarrow>
      chunks st' =
        (if current_text st \<noteq> [] \<and> int (length (current_text st)) + int (length (seg_text seg)) > T
         then chunks st @ [\<lparr>chunk_text = current_text st,
                            timestamp_start = start_timestamp st,
                            timestamp_end = end_timestamp st\<rparr>]
         else chunks st))
   \<and> (fold_segment T st seg = Inr st' \<and> current_text st \<noteq> []
        \<and> int (length (current_text st)) + int (length (seg_text seg)) = T \<longrightarrow>
      chunks st' = chunks st \<and> current_text st' = current_text st @ '' '' @ seg_text seg
        \<and> int (length (current_text st')) = T + 1)
   \<and> ((\<forall>s\<in>set segments. contains arrow (seg_timestamp s)) \<longrightarrow>
      (\<exists>cs. create_chunks_from_segments segments T = Inr cs
        \<and> (\<forall>c\<in>set cs. (\<exists>s\<in>set segments. chunk_text c = seg_text s)
                         \<or> int (length (chunk_text c)) \<le> T + 1)))"
proof -
  have p1: "fold_segment T st seg = Inr st' \<longrightarrow>
      chunks st' =
        (if current_text st \<noteq> [] \<and> int (length (current_text st)) + int (length (seg_text seg)) > T
         then chunks st @ [\<lparr>chunk_text = current_text st,
                            timestamp_start = start_timestamp st,
                            timestamp_end = end_timestamp st\<rparr>]
         else chunks st)"
  proof (rule impI)
    assume f: "fold_segment T st seg = Inr st'"
    then obtain e where e: "seg_end seg = Inr e"
      by (cases "seg_end seg") (simp_all add: fold_segment_def add_segment_def)
    with f show "chunks st' =
        (if current_text st \<noteq> [] \<and> int (length (current_text st)) + int (length (seg_text seg)) > T
         then chunks st @ [\<lparr>chunk_text = current_text st,
                            timestamp_start = start_timestamp st,
                            timestamp_end = end_timestamp st\<rparr>]
         else chunks st)"
      by (auto simp add: fold_segment_def add_segment_def flush_def)
  qed
  have p2: "fold_segment T st seg = Inr st' \<and> current_text st \<noteq> []
        \<and> int (length (current_text st)) + int (length (seg_text seg)) = T \<longrightarrow>
      chunks st' = chunks st \<and> current_text st' = current_text st @ '' '' @ seg_text seg
        \<and> int (length (current_text st')) = T + 1"
  proof (rule impI)
    assume a: "fold_segment T st seg = Inr st' \<and> current_text st \<noteq> []
        \<and> int (length (current_text st)) + int (length (seg_text seg)) = T"
    then obtain e where e: "seg_end seg = Inr e"
      by (cases "seg_end seg") (simp_all add: fold_segment_def add_segment_def)
    from a have "flush T st seg = st"
      by (simp add: flush_def)
    with a e have c: "chunks st' = chunks st"
      and t: "current_text st' = current_text st @ '' '' @ seg_text seg"
      by (auto simp add: fold_segment_def add_segment_def)
    from a t have "int (length (current_text st')) = T + 1"
      by auto
    with c t show "chunks st' = chunks st \<and> current_text st' = current_text st @ '' '' @ seg_text seg
        \<and> int (length (current_text st')) = T + 1"
      by simp
  qed
  have p3: "(\<forall>s\<in>set segments. contains arrow (seg_timestamp s)) \<longrightarrow>
      (\<exists>cs. create_chunks_from_segments segments T = Inr cs
        \<and> (\<forall>c\<in>set cs. (\<exists>s\<in>set segments. chunk_text c = seg_text s)
                         \<or> int (length (chunk_text c)) \<le> T + 1))"
  proof (rule impI)
    assume "\<forall>s\<in>set segments. contains arrow (seg_timestamp s)"
    from run_segments_total [OF this, of T init_assembler]
    obtain st1 where "run_segments T init_assembler segments = Inr st1"
      by blast
    then have r: "create_chunks_from_segments segments T = Inr (final_chunks st1)"
      by (simp add: create_chunks_from_segments_def)
    from create_chunks_bound [OF r]
    have "\<forall>c\<in>set (final_chunks st1). (\<exists>s\<in>set segments. chunk_text c = seg_text s)
                         \<or> int (length (chunk_text c)) \<le> T + 1"
      by (simp add: text_ok_def)
    with r show "\<exists>cs. create_chunks_from_segments segments T = Inr cs
        \<and> (\<forall>c\<in>set cs. (\<exists>s\<in>set segments. chunk_text c = seg_text s)
                         \<or> int (length (chunk_text c)) \<le> T + 1)"
      by blast
  qed
  show ?thesis
    by (rule conjI [OF p1 conjI [OF p2 p3]])
qed

text \<open>
  The theorem at threshold 2: folding \<open>e\<close> into the accumulator \<open>d\<close> reaches the sum 2,
  closes nothing and leaves three characters.
\<close>

theorem C2_flush_rule_and_size_bound_witness:
  "fold_segment 2
       \<lparr>chunks = [\<lparr>chunk_text = ''abc'', timestamp_start = Some ''0'',
                   timestamp_end = Some ''1''\<rparr>],
        current_text = ''d'', start_timestamp = Some ''1'', end_timestamp = Some ''2''\<rparr>
       \<lparr>seg_timestamp = ''2 --> 3'', seg_text = ''e''\<rparr>
     = Inr \<lparr>chunks = [\<lparr>chunk_text = ''abc'', timestamp_start = Some ''0'',
                       timestamp_end = Some ''1''\<rparr>],
            current_text = ''d e'', start_timestamp = Some ''1'', end_timestamp = Some ''3''\<rparr>
   \<and> int (length ''d e'') = 2 + 1
   \<and> (\<exists>cs. create_chunks_from_segments
         [\<lparr>seg_timestamp = ''0 --> 1'', seg_text = ''abc''\<rparr>,
          \<lparr>seg_timestamp = ''1 --> 2'', seg_text = ''d''\<rparr>,
          \<lparr>seg_timestamp = ''2 --> 3'', seg_text = ''e''\<rparr>] 2 = Inr cs
        \<and> list_all (\<lambda>c. chunk_text c \<in> {''abc'', ''d'', ''e''}
                        \<or> int (length (chunk_text c)) \<le> 2 + 1) cs)"
proof -
  have f: "fold_segment 2
       \<lparr>chunks = [\<lparr>chunk_text = ''abc'', timestamp_start = Some ''0'',
                   timestamp_end = Some ''1''\<rparr>],
        current_text = ''d'', start_timestamp = Some ''1'', end_timestamp = Some ''2''\<rparr>
       \<lparr>seg_timestamp = ''2 --> 3'', seg_text = ''e''\<rparr>
     = Inr \<lparr>chunks = [\<lparr>chunk_text = ''abc'', timestamp_start = Some ''0'',
                       timestamp_end = Some ''1''\<rparr>],
            current_text = ''d e'', start_timestamp = Some ''1'', end_timestamp = Some ''3''\<rparr>"
    by (simp add: fold_segment_def flush_def add_segment_def seg_start_def seg_end_def py_split_def
      split_from.simps arrow_def strip_def isspace_def Let_def)
  have h: "\<forall>s\<in>set [\<lparr>seg_timestamp = ''0 --> 1'', seg_text = ''abc''\<rparr>,
          \<lparr>seg_timestamp = ''1 --> 2'', seg_text = ''d''\<rparr>,
          \<lparr>seg_timestamp = ''2 --> 3'', seg_text = ''e''\<rparr>]. contains arrow (seg_timestamp s)"
    by (simp add: arrow_def)
  show ?thesis
    using C2_flush_rule_and_size_bound [of 2
      "\<lparr>chunks = [\<lparr>chunk_text = ''abc'', timestamp_start = Some ''0'',
               timestamp_end = Some ''1''\<rparr>],
             current_text = ''d'', start_timestamp = Some ''1'', end_timestamp = Some ''2''\<rparr>"
      "\<lparr>seg_timestamp = ''2 --> 3'', seg_text = ''e''\<rparr>"
      "\<lparr>chunks = [\<lparr>chunk_text = ''abc'', timestamp_start = Some ''0'',
               timestamp_end = Some ''1''\<rparr>],
             current_text = ''d e'', start_timestamp = Some ''1'', end_timestamp = Some ''3''\<rparr>"
      "[\<lparr>seg_timestamp = ''0 --> 1'', seg_text = ''abc''\<rparr>,
          \<lparr>seg_timestamp = ''1 --> 2'', seg_text = ''d''\<rparr>,
          \<lparr>seg_timestamp = ''2 --> 3'', seg_text = ''e''\<rparr>]"] f h
    by (auto simp add: list_all_iff)
qed

text \<open>
  Claim C2 as stated says the accumulator of a chunk of several segments never exceeds
  \<open>T\<close>. At threshold 3 the segments \<open>a\<close> and \<open>bc\<close> pass the test (1 + 2 is not above 3)
  and form one chunk of four characters, which is neither of the two segments.
\<close>

theorem C2_threshold_exceeded_counterexample:
  "create_chunks_from_segments
       [\<lparr>seg_timestamp = ''0 --> 1'', seg_text = ''a''\<rparr>,
        \<lparr>seg_timestamp = ''1 --> 2'', seg_text = ''bc''\<rparr>] 3
     = Inr [\<lparr>chunk_text = ''a bc'', timestamp_start = Some ''0'', timestamp_end = Some ''2''\<rparr>]
   \<and> ''a bc'' \<noteq> ''a'' \<and> ''a bc'' \<noteq> ''bc'' \<and> int (length ''a bc'') > 3"
  by (simp add: create_chunks_from_segments_def init_assembler_def final_chunks_def
      fold_segment_def flush_def add_segment_def seg_start_def seg_end_def py_split_def
      split_from.simps arrow_def strip_def isspace_def Let_def)

text \<open>
  Claim C3 at a transcript whose first cue line starts with the arrow. The parser keeps
  the line as a timestamp, the start of that segment is the empty string, and since the
  assembler tests \<open>not start_timestamp\<close> rather than \<open>is None\<close>, folding the second
  segment overwrites it: the chunk starts at the second segment's start, not at the
  start of the first segment folded into it.
\<close>

theorem C3_empty_start_is_overwritten:
  "parse_webvtt_content
       ''--> 00:00:02.000\<newline>a\<newline>00:00:02.000 --> 00:00:04.000\<newline>b''
     = [\<lparr>seg_timestamp = ''--> 00:00:02.000'', seg_text = ''a''\<rparr>,
        \<lparr>seg_timestamp = ''00:00:02.000 --> 00:00:04.000'', seg_text = ''b''\<rparr>]
   \<and> create_chunks_from_segments
       [\<lparr>seg_timestamp = ''--> 00:00:02.000'', seg_text = ''a''\<rparr>,
        \<lparr>seg_timestamp = ''00:00:02.000 --> 00:00:04.000'', seg_text = ''b''\<rparr>] 1000
     = Inr [\<lparr>chunk_text = ''a b'', timestamp_start = Some ''00:00:02.000'',
             timestamp_end = Some ''00:00:04.000''\<rparr>]
   \<and> seg_start \<lparr>seg_timestamp = ''--> 00:00:02.000'', seg_text = ''a''\<rparr> = ''''"
  by (simp add: parse_webvtt_content_def parse_loop.simps collect_text.simps newline_def
      create_chunks_from_segments_def init_assembler_def final_chunks_def
      fold_segment_def flush_def add_segment_def seg_start_def seg_end_def py_split_def
      split_from.simps arrow_def strip_def isspace_def Let_def)


section \<open>The transcript parser: properties\<close>

text \<open>
  Claim C4. For every input text, \<open>parse_webvtt_content\<close> returns exactly the segments of
  the cue blocks of its lines: one segment per cue that has at least one text line, in
  cue order, whose text is the cue's stripped text lines joined by single spaces. Cues
  without text lines give no segment, and lines outside any cue (headers, sequence
  numbers, blank lines) contribute nothing.
\<close>

theorem C4_parser_emits_cue_segments:
  "parse_webvtt_content content = cue_segments (py_split newline content)"
  by (simp add: parse_webvtt_content_def parse_loop_cues)


text \<open>
  The theorem at a transcript with a header, a sequence number, a cue of two text lines,
  a stray line after a blank line, a cue without text and a last cue.
\<close>

theorem C4_parser_emits_cue_segments_witness:
  "parse_webvtt_content
     ''WEBVTT\<newline>\<newline>1\<newline>00:01 --> 00:02\<newline>  hello \<newline>world\<newline>\<newline>stray\<newline>00:03 --> 00:04\<newline>00:05 --> 00:06\<newline>x''
   = [\<lparr>seg_timestamp = ''00:01 --> 00:02'', seg_text = ''hello world''\<rparr>,
      \<lparr>seg_timestamp = ''00:05 --> 00:06'', seg_text = ''x''\<rparr>]"
proof -
  have "cue_segments (py_split newline
     ''WEBVTT\<newline>\<newline>1\<newline>00:01 --> 00:02\<newline>  hello \<newline>world\<newline>\<newline>stray\<newline>00:03 --> 00:04\<newline>00:05 --> 00:06\<newline>x'')
   = [\<lparr>seg_timestamp = ''00:01 --> 00:02'', seg_text = ''hello world''\<rparr>,
      \<lparr>seg_timestamp = ''00:05 --> 00:06'', seg_text = ''x''\<rparr>]"
    by (simp add: cue_segments_def is_time_line_def is_text_line_def py_split_def
        split_from.simps newline_def arrow_def strip_def isspace_def)
  with C4_parser_emits_cue_segments [of "''WEBVTT\<newline>\<newline>1\<newline>00:01 --> 00:02\<newline>  hello \<newline>world\<newline>\<newline>stray\<newline>00:03 --> 00:04\<newline>00:05 --> 00:06\<newline>x''"]
  show ?thesis by simp
qed


section \<open>The query endpoint: properties\<close>

text \<open>
  Claim C5. For every question, the classifier lower-cases and strips it and returns the
  category of the first of the six patterns, in their fixed order, of which an
  alternative is a prefix of the result; it returns nothing exactly when no alternative
  of any pattern is such a prefix, and exactly then the endpoint takes the retrieval
  branch (it queries the store). Hence questions with the same lower-casing are
  classified alike, whitespace around the question does not matter, and \<open>hello\<close>,
  \<open>thanks!\<close> and \<open>who are you?\<close> are casual.
\<close>

theorem C5_classifier_first_match:
  "classify question = first_match category_table (strip (lower question))
   \<and> ((classify question = None)
        = (\<not> (\<exists>pattern\<in>set casual_patterns. \<exists>alternative\<in>set pattern.
                 prefix alternative (strip (lower question)))))
   \<and> ((calls (query_lecture e question) \<noteq> []) = (classify question = None))
   \<and> (lower question = lower question' \<longrightarrow> classify question = classify question')
   \<and> ((\<forall>c\<in>set l \<union> set r. isspace c) \<longrightarrow> classify (l @ question @ r) = classify question)
   \<and> classify ''hello'' = Some Greeting
   \<and> classify ''thanks!'' = Some Thanks
   \<and> classify ''who are you?'' = Some Who_are_you"
proof -
  have p1: "classify question = first_match category_table (strip (lower question))"
    by (rule classify_first_match)
  have p2: "(classify question = None)
        = (\<not> (\<exists>pattern\<in>set casual_patterns. \<exists>alternative\<in>set pattern.
                 prefix alternative (strip (lower question))))"
    by (simp only: classify_None is_casual_def re_match_def list_ex_iff)
  have p3: "(calls (query_lecture e question) \<noteq> []) = (classify question = None)"
    by (simp only: classify_None query_lecture_calls)
  have p4: "lower question = lower question' \<longrightarrow> classify question = classify question'"
    by (simp add: classify_def)
  have p5: "(\<forall>c\<in>set l \<union> set r. isspace c) \<longrightarrow> classify (l @ question @ r) = classify question"
  proof (rule impI)
    assume "\<forall>c\<in>set l \<union> set r. isspace c"
    then have "strip (lower (l @ question @ r)) = strip (lower question)"
      by (intro lower_pad) simp_all
    then show "classify (l @ question @ r) = classify question"
      by (simp add: classify_def)
  qed
  have p6: "classify ''hello'' = Some Greeting"
    by code_simp
  have p7: "classify ''thanks!'' = Some Thanks"
    by code_simp
  have p8: "classify ''who are you?'' = Some Who_are_you"
    by code_simp
  from p1 p2 p3 p4 p5 p6 p7 p8 show ?thesis
    by (intro conjI)
qed

text \<open>
  The theorem at an upper-case question with surrounding blanks and at a question that
  no pattern matches.
\<close>

theorem C5_classifier_first_match_witness:
  "classify ''  THANKS a lot!  '' = Some Thanks
   \<and> classify (''  '' @ ''Hello'' @ '' '') = classify ''hello''
   \<and> classify ''What is fine-tuning?'' = None
   \<and> calls (query_lecture store_down_env ''What is fine-tuning?'') \<noteq> []"
proof -
  have a: "first_match category_table (strip (lower ''  THANKS a lot!  '')) = Some Thanks"
    by code_simp
  have b: "lower ''Hello'' = lower ''hello''"
    by code_simp
  have c: "\<forall>c\<in>set ''  '' \<union> set '' ''. isspace c"
    by (simp add: isspace_def)
  have d: "first_match category_table (strip (lower ''What is fine-tuning?'')) = None"
    by code_simp
  note t = C5_classifier_first_match
  from t [of "''  THANKS a lot!  ''"] a have 1: "classify ''  THANKS a lot!  '' = Some Thanks"
    by simp
  note t4 = t [THEN conjunct2, THEN conjunct2, THEN conjunct2, THEN conjunct1, THEN mp]
  note t5 = t [THEN conjunct2, THEN conjunct2, THEN conjunct2, THEN conjunct2, THEN conjunct1,
    THEN mp]
  from t5 [OF c, of "''Hello''"] t4 [OF b]
  have 2: "classify (''  '' @ ''Hello'' @ '' '') = classify ''hello''"
    by (rule trans)
  from t [of "''What is fine-tuning?''"] d have 3: "classify ''What is fine-tuning?'' = None"
    by simp
  from t [of "''What is fine-tuning?''" store_down_env] 3
  have 4: "calls (query_lecture store_down_env ''What is fine-tuning?'') \<noteq> []"
    by simp
  from 1 2 3 4 show ?thesis by (intro conjI)
qed

text \<open>
  Claim C6, as amended. On the retrieval branch, when the model stream ends without
  raising, the generator yields the content events of the model's non-empty fragments in
  generation order, then one content event with the fixed closing note, then one sources
  event carrying the sources built from the retrieved chunks, then one \<open>done\<close> event, and
  that is the stream the endpoint delivers. In every case the events yielded are content
  events followed either by exactly those three closing events or, when an exception ends
  the generator, by nothing: a sources event never precedes a content event and \<open>done\<close>,
  when it is emitted, is last.
\<close>

theorem C6_retrieval_stream_order:
  "(chat_completions e (messages e question ctx) = Inr (deltas, None) \<longrightarrow>
      generate e question ctx sources
        = (map Content (fragments deltas) @ [Content closing_message, Sources sources, Done], None))
   \<and> (\<exists>contents. fst (generate e question ctx sources)
          = map Content contents @
            (if snd (generate e question ctx sources) = None
             then [Content closing_message, Sources sources, Done] else []))
   \<and> (\<not> is_casual (strip (lower question))
        \<and> collection_query e question 5 = Inr results
        \<and> context_str results = Inr ctx
        \<and> build_sources results = Inr sources
        \<and> chat_completions e (messages e question ctx) = Inr (deltas, None) \<longrightarrow>
      response (query_lecture e question)
        = StreamingResponse
            (map Content (fragments deltas) @ [Content closing_message, Sources sources, Done])
            None)"
proof -
  have p1: "chat_completions e (messages e question ctx) = Inr (deltas, None) \<longrightarrow>
      generate e question ctx sources
        = (map Content (fragments deltas) @ [Content closing_message, Sources sources, Done], None)"
    by (rule impI) (rule generate_completes)
  have p2: "\<exists>contents. fst (generate e question ctx sources)
          = map Content contents @
            (if snd (generate e question ctx sources) = None
             then [Content closing_message, Sources sources, Done] else [])"
    by (rule generate_shape)
  have p3: "\<not> is_casual (strip (lower question))
        \<and> collection_query e question 5 = Inr results
        \<and> context_str results = Inr ctx
        \<and> build_sources results = Inr sources
        \<and> chat_completions e (messages e question ctx) = Inr (deltas, None) \<longrightarrow>
      response (query_lecture e question)
        = StreamingResponse
            (map Content (fragments deltas) @ [Content closing_message, Sources sources, Done])
            None"
  proof (rule impI)
    assume a: "\<not> is_casual (strip (lower question))
        \<and> collection_query e question 5 = Inr results
        \<and> context_str results = Inr ctx
        \<and> build_sources results = Inr sources
        \<and> chat_completions e (messages e question ctx) = Inr (deltas, None)"
    then have a1: "\<not> is_casual (strip (lower question))"
      and a2: "collection_query e question 5 = Inr results"
      and a3: "context_str results = Inr ctx"
      and a4: "build_sources results = Inr sources"
      and a5: "chat_completions e (messages e question ctx) = Inr (deltas, None)"
      by simp_all
    from query_lecture_retrieval [OF a1 a2 a3 a4] generate_completes [OF a5, of sources]
    show "response (query_lecture e question)
        = StreamingResponse
            (map Content (fragments deltas) @ [Content closing_message, Sources sources, Done])
            None"
      by simp
  qed
  show ?thesis
    by (rule conjI [OF p1 conjI [OF p2 p3]])
qed

text \<open>The theorem at collaborators whose model stream ends normally.\<close>

theorem C6_retrieval_stream_order_witness:
  "response (query_lecture complete_env ''What is RAG?'')
     = StreamingResponse
         [Content ''Good '', Content ''question'', Content closing_message,
          Sources [\<lparr>course = ''GenAI'', lecture = ''RAG'',
                    source_timestamp_start = ''00:00:01.000'',
                    source_timestamp_end = ''00:00:09.000'', source_text = ''short text''\<rparr>,
                   \<lparr>course = ''GenAI'', lecture = ''Unknown'',
                    source_timestamp_start = ''00:00:00.000'',
                    source_timestamp_end = ''00:00:00.000'',
                    source_text = replicate 200 CHR ''a'' @ ''...''\<rparr>],
          Done]
         None"
proof -
  have q: "collection_query complete_env ''What is RAG?'' 5 = Inr sample_results"
    by (simp add: complete_env_def)
  have m: "chat_completions complete_env
      (messages complete_env ''What is RAG?''
        (''[ID: id-1] short text\<newline>\<newline>[ID: id-2] '' @ replicate 201 CHR ''a''))
     = Inr ([Some ''Good '', None, Some [], Some ''question''], None)"
    by (simp add: complete_env_def)
  have f: "fragments [Some ''Good '', None, Some [], Some ''question''] = [''Good '', ''question'']"
    by (simp add: fragments_def)
  from C6_retrieval_stream_order [THEN conjunct2, THEN conjunct2, THEN mp,
    OF conjI [OF sample_question conjI [OF q conjI [OF sample_context conjI [OF sample_sources m]]]]]
  show ?thesis
    by (simp only: f list.map append.simps)
qed

text \<open>
  Claim C6 as stated says the stream always ends with the closing note, the sources and
  \<open>done\<close>. When the model stream raises after two fragments the generator stops there:
  two content events and nothing else.
\<close>

theorem C6_interrupted_stream_counterexample:
  "generate interrupted_env ''What is RAG?'' ''ctx'' []
     = ([Content ''Good '', Content ''question''], Some (External ''connection reset''))
   \<and> Done \<notin> set [Content ''Good '', Content ''question'']
   \<and> Sources [] \<notin> set [Content ''Good '', Content ''question'']
   \<and> Content closing_message \<notin> set [Content ''Good '', Content ''question'']"
  by (simp add: generate_def interrupted_env_def closing_message_def)


text \<open>
  Claim C7. For every question classified as casual, the endpoint answers with one content
  event per character of the canned response selected, in character order, followed at
  once by a single \<open>done\<close> event; the stream has no sources event, and neither the vector
  store nor the model is called. \<open>hi there\<close> is classified as a greeting.
\<close>

theorem C7_casual_stream:
  "(classify question = Some k \<longrightarrow>
      query_lecture e question
        = \<lparr>response = StreamingResponse
                         (map (\<lambda>char. Content [char]) (casual_responses k) @ [Done]) None,
           calls = []\<rparr>)
   \<and> length (map (\<lambda>char. Content [char]) (casual_responses k) @ [Done])
        = length (casual_responses k) + 1
   \<and> (\<forall>i<length (casual_responses k).
        (map (\<lambda>char. Content [char]) (casual_responses k) @ [Done]) ! i
          = Content [casual_responses k ! i])
   \<and> (\<forall>s. Sources s \<notin> set (map (\<lambda>char. Content [char]) (casual_responses k) @ [Done]))
   \<and> classify ''hi there'' = Some Greeting"
proof -
  have p1: "classify question = Some k \<longrightarrow>
      query_lecture e question
        = \<lparr>response = StreamingResponse
                         (map (\<lambda>char. Content [char]) (casual_responses k) @ [Done]) None,
           calls = []\<rparr>"
    by (auto simp add: classify_def query_lecture_def generate_casual_def Let_def
        split: if_splits)
  have p2: "length (map (\<lambda>char. Content [char]) (casual_responses k) @ [Done])
        = length (casual_responses k) + 1"
    by simp
  have p3: "\<forall>i<length (casual_responses k).
        (map (\<lambda>char. Content [char]) (casual_responses k) @ [Done]) ! i
          = Content [casual_responses k ! i]"
    by (simp add: nth_append)
  have p4: "\<forall>s. Sources s \<notin> set (map (\<lambda>char. Content [char]) (casual_responses k) @ [Done])"
    by auto
  have p5: "classify ''hi there'' = Some Greeting"
    by code_simp
  from p1 p2 p3 p4 p5 show ?thesis
    by (intro conjI)
qed

text \<open>The theorem at the question \<open>hi there\<close>.\<close>

theorem C7_casual_stream_witness:
  "query_lecture store_down_env ''hi there''
     = \<lparr>response = StreamingResponse
                      (map (\<lambda>char. Content [char]) (casual_responses Greeting) @ [Done]) None,
        calls = []\<rparr>
   \<and> length (casual_responses Greeting) = 174"
proof -
  note t = C7_casual_stream [of "''hi there''" Greeting store_down_env]
  from t [THEN conjunct1, THEN mp, OF t [THEN conjunct2, THEN conjunct2, THEN conjunct2, THEN conjunct2]]
  have "query_lecture store_down_env ''hi there''
     = \<lparr>response = StreamingResponse
                      (map (\<lambda>char. Content [char]) (casual_responses Greeting) @ [Done]) None,
        calls = []\<rparr>" .
  moreover have "length (casual_responses Greeting) = 174"
    by (simp add: casual_responses_def)
  ultimately show ?thesis by (rule conjI)
qed


text \<open>
  Claim C8. The excerpt of a document is the document itself when it has at most 200
  characters and otherwise its first 200 characters followed by three dots. When the
  store returns a metadata and a document for every id, the sources are built, one per
  retrieved chunk and in the store's order, the \<open>i\<close>-th source carrying the course,
  lecture and time range found in the \<open>i\<close>-th metadata (a value present under a key is the
  value carried; the defaults stand in for absent keys) and the excerpt of the \<open>i\<close>-th
  document.
\<close>

theorem C8_sources_and_excerpt:
  "excerpt document
     = (if length document \<le> 200 then document else take 200 document @ ''...'')
   \<and> (metadata key = Some v \<longrightarrow> metadata_get metadata key dflt = v)
   \<and> (length (ids results) \<le> length (metadatas results)
        \<and> length (ids results) \<le> length (documents results) \<longrightarrow>
      (\<exists>sources. build_sources results = Inr sources
         \<and> length sources = length (ids results)
         \<and> (\<forall>i<length (ids results).
              sources ! i
                = \<lparr>course = metadata_get (metadatas results ! i) ''course'' ''Unknown'',
                   lecture = metadata_get (metadatas results ! i) ''lecture'' ''Unknown'',
                   source_timestamp_start =
                     metadata_get (metadatas results ! i) ''timestamp_start'' ''00:00:00.000'',
                   source_timestamp_end =
                     metadata_get (metadatas results ! i) ''timestamp_end'' ''00:00:00.000'',
                   source_text = excerpt (documents results ! i)\<rparr>)))"
proof -
  have p1: "excerpt document
     = (if length document \<le> 200 then document else take 200 document @ ''...'')"
    by (simp add: excerpt_def)
  have p2: "metadata key = Some v \<longrightarrow> metadata_get metadata key dflt = v"
    by (simp add: metadata_get_def)
  have p3: "length (ids results) \<le> length (metadatas results)
        \<and> length (ids results) \<le> length (documents results) \<longrightarrow>
      (\<exists>sources. build_sources results = Inr sources
         \<and> length sources = length (ids results)
         \<and> (\<forall>i<length (ids results).
              sources ! i
                = \<lparr>course = metadata_get (metadatas results ! i) ''course'' ''Unknown'',
                   lecture = metadata_get (metadatas results ! i) ''lecture'' ''Unknown'',
                   source_timestamp_start =
                     metadata_get (metadatas results ! i) ''timestamp_start'' ''00:00:00.000'',
                   source_timestamp_end =
                     metadata_get (metadatas results ! i) ''timestamp_end'' ''00:00:00.000'',
                   source_text = excerpt (documents results ! i)\<rparr>))"
  proof (rule impI)
    assume a: "length (ids results) \<le> length (metadatas results)
        \<and> length (ids results) \<le> length (documents results)"
    then have "\<forall>i\<in>set [0..<length (ids results)].
        i < length (metadatas results) \<and> i < length (documents results)"
      by auto
    from sources_loop_eq [OF this, of "[]"]
    have "build_sources results = Inr (map (\<lambda>i.
              \<lparr>course = metadata_get (metadatas results ! i) ''course'' ''Unknown'',
                lecture = metadata_get (metadatas results ! i) ''lecture'' ''Unknown'',
                source_timestamp_start =
                  metadata_get (metadatas results ! i) ''timestamp_start'' ''00:00:00.000'',
                source_timestamp_end =
                  metadata_get (metadatas results ! i) ''timestamp_end'' ''00:00:00.000'',
                source_text = excerpt (documents results ! i)\<rparr>) [0..<length (ids results)])"
      by (simp add: build_sources_def)
    then show "\<exists>sources. build_sources results = Inr sources
         \<and> length sources = length (ids results)
         \<and> (\<forall>i<length (ids results).
              sources ! i
                = \<lparr>course = metadata_get (metadatas results ! i) ''course'' ''Unknown'',
                   lecture = metadata_get (metadatas results ! i) ''lecture'' ''Unknown'',
                   source_timestamp_start =
                     metadata_get (metadatas results ! i) ''timestamp_start'' ''00:00:00.000'',
                   source_timestamp_end =
                     metadata_get (metadatas results ! i) ''timestamp_end'' ''00:00:00.000'',
                   source_text = excerpt (documents results ! i)\<rparr>)"
      by simp
  qed
  show ?thesis
    by (rule conjI [OF p1 conjI [OF p2 p3]])
qed

text \<open>The theorem at the sample store answer.\<close>

theorem C8_sources_and_excerpt_witness:
  "excerpt (replicate 201 CHR ''a'') = replicate 200 CHR ''a'' @ ''...''
   \<and> excerpt ''short text'' = ''short text''
   \<and> (\<exists>sources. build_sources sample_results = Inr sources \<and> length sources = 2
        \<and> course (sources ! 0) = ''GenAI'' \<and> lecture (sources ! 0) = ''RAG''
        \<and> source_text (sources ! 1) = replicate 200 CHR ''a'' @ ''...'')"
proof -
  note t = C8_sources_and_excerpt
  from t [of "replicate 201 CHR ''a''", THEN conjunct1]
  have 1: "excerpt (replicate 201 CHR ''a'') = replicate 200 CHR ''a'' @ ''...''"
    by simp
  from t [of "''short text''", THEN conjunct1]
  have 2: "excerpt ''short text'' = ''short text''"
    by simp
  have h: "length (ids sample_results) \<le> length (metadatas sample_results)
        \<and> length (ids sample_results) \<le> length (documents sample_results)"
    by (simp add: sample_results_def)
  from t [THEN conjunct2, THEN conjunct2, THEN mp, OF h]
  have "\<exists>sources. build_sources sample_results = Inr sources
      \<and> length sources = length (ids sample_results)"
    by (elim exE conjE) (intro exI conjI)
  then have "\<exists>sources. build_sources sample_results = Inr sources \<and> length sources = 2
        \<and> course (sources ! 0) = ''GenAI'' \<and> lecture (sources ! 0) = ''RAG''
        \<and> source_text (sources ! 1) = replicate 200 CHR ''a'' @ ''...''"
    by (simp add: sample_sources)
  with 1 2 show ?thesis by (intro conjI)
qed


text \<open>
  Claim C9, as amended. An exception raised by the store query, or while the context
  block and the sources are built from its result, aborts the request with the status
  500 and the exception's message. An exception raised by the model stream after
  fragments have been emitted is not turned into such a response: the generator runs
  after the endpoint has returned its streaming response, so the content events already
  emitted stay delivered and the stream ends there, with the exception, without closing
  note, sources or \<open>done\<close>.
\<close>

theorem C9_errors_before_streaming:
  "(\<not> is_casual (strip (lower question)) \<and> collection_query e question 5 = Inl err \<longrightarrow>
      response (query_lecture e question) = HTTPException 500 (str_of_exn err))
   \<and> (\<not> is_casual (strip (lower question)) \<and> collection_query e question 5 = Inr results
        \<and> (context_str results = Inl err
            \<or> context_str results = Inr ctx \<and> build_sources results = Inl err) \<longrightarrow>
      response (query_lecture e question) = HTTPException 500 (str_of_exn err))
   \<and> (\<not> is_casual (strip (lower question)) \<and> collection_query e question 5 = Inr results
        \<and> context_str results = Inr ctx \<and> build_sources results = Inr sources
        \<and> chat_completions e (messages e question ctx) = Inr (deltas, Some err)
        \<and> fragments deltas \<noteq> [] \<longrightarrow>
      response (query_lecture e question)
        = StreamingResponse (map Content (fragments deltas)) (Some err))"
proof -
  have p1: "\<not> is_casual (strip (lower question)) \<and> collection_query e question 5 = Inl err \<longrightarrow>
      response (query_lecture e question) = HTTPException 500 (str_of_exn err)"
    by (simp add: query_lecture_def Let_def)
  have p2: "\<not> is_casual (strip (lower question)) \<and> collection_query e question 5 = Inr results
        \<and> (context_str results = Inl err
            \<or> context_str results = Inr ctx \<and> build_sources results = Inl err) \<longrightarrow>
      response (query_lecture e question) = HTTPException 500 (str_of_exn err)"
    by (auto simp add: query_lecture_def Let_def)
  have p3: "\<not> is_casual (strip (lower question)) \<and> collection_query e question 5 = Inr results
        \<and> context_str results = Inr ctx \<and> build_sources results = Inr sources
        \<and> chat_completions e (messages e question ctx) = Inr (deltas, Some err)
        \<and> fragments deltas \<noteq> [] \<longrightarrow>
      response (query_lecture e question)
        = StreamingResponse (map Content (fragments deltas)) (Some err)"
  proof (rule impI)
    assume "\<not> is_casual (strip (lower question)) \<and> collection_query e question 5 = Inr results
        \<and> context_str results = Inr ctx \<and> build_sources results = Inr sources
        \<and> chat_completions e (messages e question ctx) = Inr (deltas, Some err)
        \<and> fragments deltas \<noteq> []"
    then have a1: "\<not> is_casual (strip (lower question))"
      and a2: "collection_query e question 5 = Inr results"
      and a3: "context_str results = Inr ctx"
      and a4: "build_sources results = Inr sources"
      and a5: "chat_completions e (messages e question ctx) = Inr (deltas, Some err)"
      by simp_all
    from query_lecture_retrieval [OF a1 a2 a3 a4] generate_interrupted [OF a5, of sources]
    show "response (query_lecture e question)
        = StreamingResponse (map Content (fragments deltas)) (Some err)"
      by simp
  qed
  show ?thesis
    by (rule conjI [OF p1 conjI [OF p2 p3]])
qed

text \<open>
  The theorem at a store that is down, and at a model stream that raises after two
  fragments.
\<close>

theorem C9_errors_before_streaming_witness:
  "response (query_lecture store_down_env ''What is RAG?'')
     = HTTPException 500 ''store unavailable''
   \<and> response (query_lecture interrupted_env ''What is RAG?'')
     = StreamingResponse [Content ''Good '', Content ''question'']
         (Some (External ''connection reset''))"
proof -
  note t = C9_errors_before_streaming
  have q1: "collection_query store_down_env ''What is RAG?'' 5 = Inl (External ''store unavailable'')"
    by (simp add: store_down_env_def)
  from t [THEN conjunct1, THEN mp, OF conjI [OF sample_question q1]]
  have 1: "response (query_lecture store_down_env ''What is RAG?'')
     = HTTPException 500 ''store unavailable''"
    by simp
  have q2: "collection_query interrupted_env ''What is RAG?'' 5 = Inr sample_results"
    by (simp add: interrupted_env_def)
  have m: "chat_completions interrupted_env
      (messages interrupted_env ''What is RAG?''
        (''[ID: id-1] short text\<newline>\<newline>[ID: id-2] '' @ replicate 201 CHR ''a''))
     = Inr ([Some ''Good '', Some ''question''], Some (External ''connection reset''))"
    by (simp add: interrupted_env_def)
  have f: "fragments [Some ''Good '', Some ''question''] = [''Good '', ''question'']"
    by (simp add: fragments_def)
  then have n: "fragments [Some ''Good '', Some ''question''] \<noteq> []"
    by simp
  from t [THEN conjunct2, THEN conjunct2, THEN mp,
    OF conjI [OF sample_question conjI [OF q2 conjI [OF sample_context
      conjI [OF sample_sources conjI [OF m n]]]]]]
  have 2: "response (query_lecture interrupted_env ''What is RAG?'')
     = StreamingResponse [Content ''Good '', Content ''question'']
         (Some (External ''connection reset''))"
    by (simp only: f list.map)
  from 1 2 show ?thesis by (rule conjI)
qed

text \<open>
  Claim C9 as stated says an exception raised while the model completion is streamed
  yields the status 500 with the exception's message. With a stream that raises after
  two fragments the endpoint has already answered with a streaming response: the store
  and the model were called, two content events were delivered, and there is no
  \<open>HTTPException\<close>.
\<close>

theorem C9_stream_exception_counterexample:
  "query_lecture interrupted_env ''Explain fine-tuning''
     = \<lparr>response = StreamingResponse [Content ''Good '', Content ''question'']
                      (Some (External ''connection reset'')),
        calls = [Store_query ''Explain fine-tuning'' 5,
                 Model_call (messages interrupted_env ''Explain fine-tuning''
                   (''[ID: id-1] short text\<newline>\<newline>[ID: id-2] '' @ replicate 201 CHR ''a''))]\<rparr>
   \<and> StreamingResponse [Content ''Good '', Content ''question'']
         (Some (External ''connection reset''))
     \<noteq> HTTPException 500 (str_of_exn (External ''connection reset''))"
proof -
  have c: "\<not> is_casual (strip (lower ''Explain fine-tuning''))"
    by code_simp
  have q: "collection_query interrupted_env ''Explain fine-tuning'' 5 = Inr sample_results"
    by (simp add: interrupted_env_def)
  have m: "chat_completions interrupted_env
      (messages interrupted_env ''Explain fine-tuning''
        (''[ID: id-1] short text\<newline>\<newline>[ID: id-2] '' @ replicate 201 CHR ''a''))
     = Inr ([Some ''Good '', Some ''question''], Some (External ''connection reset''))"
    by (simp add: interrupted_env_def)
  have f: "fragments [Some ''Good '', Some ''question''] = [''Good '', ''question'']"
    by (simp add: fragments_def)
  from query_lecture_retrieval [OF c q sample_context sample_sources]
    generate_interrupted [OF m]
  show ?thesis
    by (simp add: f)
qed


section \<open>The ingestion run: properties\<close>

text \<open>
  Claim C10. When \<open>ingest_data\<close> runs and the data directory is missing, it ends with the
  ValueError of the directory check and leaves the store with the collection deleted and
  recreated empty, whatever the collection held before. In every run the collection the
  run leaves exists and does not depend on what the store held before the run: the wipe
  comes first.
\<close>

theorem C10_store_wiped_before_directory_check:
  "(data_dir e = None \<longrightarrow>
      ingest_data e st
        = (Inl (ValueError (''Data directory not found: '' @ DATA_PATH e)),
           st(COLLECTION_NAME \<mapsto> [])))
   \<and> snd (ingest_data e st) COLLECTION_NAME = snd (ingest_data e Map.empty) COLLECTION_NAME
   \<and> (\<exists>entries. snd (ingest_data e st) COLLECTION_NAME = Some entries)"
proof -
  have p1: "data_dir e = None \<longrightarrow>
      ingest_data e st
        = (Inl (ValueError (''Data directory not found: '' @ DATA_PATH e)),
           st(COLLECTION_NAME \<mapsto> []))"
    by (simp add: ingest_data_def wipe_collection Let_def)
  have p2: "snd (ingest_data e st) COLLECTION_NAME = snd (ingest_data e Map.empty) COLLECTION_NAME"
    by (cases "data_dir e") (simp_all add: ingest_data_def wipe_collection Let_def)
  have p3: "\<exists>entries. snd (ingest_data e st) COLLECTION_NAME = Some entries"
    by (cases "data_dir e") (simp_all add: ingest_data_def wipe_collection Let_def)
  show ?thesis
    by (rule conjI [OF p1 conjI [OF p2 p3]])
qed

text \<open>The theorem at a store holding one old chunk and a missing data directory.\<close>

theorem C10_store_wiped_before_directory_check_witness:
  "ingest_data missing_dir_env old_store
     = (Inl (ValueError ''Data directory not found: /app/backend/data''),
        [COLLECTION_NAME \<mapsto> []])
   \<and> old_store COLLECTION_NAME \<noteq> Some []"
proof -
  have d: "data_dir missing_dir_env = None"
    by (simp add: missing_dir_env_def)
  from C10_store_wiped_before_directory_check [THEN conjunct1, THEN mp, OF d, of old_store]
  have "ingest_data missing_dir_env old_store
     = (Inl (ValueError ''Data directory not found: /app/backend/data''),
        [COLLECTION_NAME \<mapsto> []])"
    by (simp add: missing_dir_env_def old_store_def)
  moreover have "old_store COLLECTION_NAME \<noteq> Some []"
    by (simp add: old_store_def)
  ultimately show ?thesis by (rule conjI)
qed


end
